theory Spec2Isabelle
  imports Main "HOL-Library.Word" "HOL-Library.Code_Target_Numeral"
begin

section \<open>JavaScript values\<close>

text \<open>
  The bridge is \<^verbatim>\<open>class SandboxBridge\<close> of \<^verbatim>\<open>src/GlobalResourceHub.js\<close>
  (lines 518 to 888). Its data are JavaScript values, so the embedding starts with them.

  A JavaScript string is a sequence of UTF-16 code units, and \<^verbatim>\<open>.length\<close> counts
  code units. Literals of the source are written \<open>js ''...''\<close>.
\<close>

type_synonym jstring = "16 word list"

definition js :: "string \<Rightarrow> jstring" where
  "js s = map of_char s"

text \<open>
  Numbers: the integral values (timestamps in milliseconds, sizes, counters), the two
  infinities and NaN. Fractions are left out; an integer stands for the double of that
  value, and the arithmetic used here (one subtraction, comparisons with 0 and 60000)
  decides the same way on the integers as on the doubles.
\<close>

datatype jsnum = Fin int | NaN | PosInf | NegInf

text \<open>
  The values a message can carry across \<^verbatim>\<open>postMessage\<close>, restricted to the JSON-like
  ones: no functions (they cannot be cloned), no cycles, no Date, Map or typed array.
  An object is the list of its own properties, a key being listed once.
\<close>

datatype jsval =
    JUndefined
  | JNull
  | JBool bool
  | JNum jsnum
  | JStr jstring
  | JArr "jsval list"
  | JObj "(jstring \<times> jsval) list"

text \<open>ToBoolean, as used by \<^verbatim>\<open>!x\<close>, \<^verbatim>\<open>x || y\<close>, \<^verbatim>\<open>x && y\<close> and \<^verbatim>\<open>if (x)\<close>.\<close>

fun truthy :: "jsval \<Rightarrow> bool" where
  "truthy JUndefined = False"
| "truthy JNull = False"
| "truthy (JBool b) = b"
| "truthy (JNum (Fin n)) = (n \<noteq> 0)"
| "truthy (JNum NaN) = False"
| "truthy (JNum PosInf) = True"
| "truthy (JNum NegInf) = True"
| "truthy (JStr s) = (s \<noteq> [])"
| "truthy (JArr xs) = True"
| "truthy (JObj kvs) = True"

text \<open>\<^verbatim>\<open>typeof x === 'object'\<close>: null, arrays and objects.\<close>

fun typeof_object :: "jsval \<Rightarrow> bool" where
  "typeof_object JNull = True"
| "typeof_object (JArr xs) = True"
| "typeof_object (JObj kvs) = True"
| "typeof_object v = False"

text \<open>
  \<^verbatim>\<open>x.name\<close> on a value that is neither null nor undefined, for the property names the
  bridge reads (id, timestamp, source, payload, isResponse, responseToId, status,
  requiresResponse, type, message, details). None of them is inherited from a built-in
  prototype, so the result is the own property of an object and undefined otherwise.
\<close>

fun get_field :: "jsval \<Rightarrow> jstring \<Rightarrow> jsval" where
  "get_field (JObj kvs) k = (case map_of kvs k of Some v \<Rightarrow> v | None \<Rightarrow> JUndefined)"
| "get_field v k = JUndefined"

text \<open>\<^verbatim>\<open>a || b\<close> on values.\<close>

definition js_or :: "jsval \<Rightarrow> jsval \<Rightarrow> jsval" where
  "js_or a b = (if truthy a then a else b)"

section \<open>Origin patterns\<close>

text \<open>
  \<^verbatim>\<open>allowedOrigin.replace(/\*/g, '.*')\<close>: every star becomes dot star, nothing else is
  touched (no other character is escaped).
\<close>

definition star :: "16 word" where
  "star = of_char (CHR ''*'')"

definition dot :: "16 word" where
  "dot = of_char (CHR ''.'')"

fun replace_stars :: "jstring \<Rightarrow> jstring" where
  "replace_stars [] = []"
| "replace_stars (c # cs) = (if c = star then dot # star # replace_stars cs else c # replace_stars cs)"

text \<open>
  The regular expressions that are built from dot star, a lone dot and literal
  characters are given a matcher here. A body that holds any other character with a
  syntactic role in a regular expression is not of this form: \<open>parse_body\<close> answers
  None for it, and the host's engine is asked (\<open>other_regexp\<close> below).
\<close>

datatype re_item = Lit "16 word" | AnyChar | AnyStar

definition re_syntax_chars :: "16 word set" where
  "re_syntax_chars = insert 0x5C (of_char ` set ''^$.*+?()[]{}|'')"

fun parse_body :: "jstring \<Rightarrow> re_item list option" where
  "parse_body [] = Some []"
| "parse_body (c # cs) =
     (if c = dot then
        (case cs of
           [] \<Rightarrow> Some [AnyChar]
         | d # ds \<Rightarrow>
             if d = star then map_option (Cons AnyStar) (parse_body ds)
             else map_option (Cons AnyChar) (parse_body cs))
      else if c \<in> re_syntax_chars then None
      else map_option (Cons (Lit c)) (parse_body cs))"

text \<open>
  Without the \<^verbatim>\<open>s\<close> flag a dot matches any code unit but the four line terminators
  (LF, CR, U+2028, U+2029).
\<close>

definition line_terminator :: "16 word \<Rightarrow> bool" where
  "line_terminator c = (c = 0x0A \<or> c = 0x0D \<or> c = 0x2028 \<or> c = 0x2029)"

fun re_match :: "re_item list \<Rightarrow> jstring \<Rightarrow> bool" where
  "re_match [] s = (s = [])"
| "re_match (Lit c # r) [] = False"
| "re_match (Lit c # r) (x # xs) = (x = c \<and> re_match r xs)"
| "re_match (AnyChar # r) [] = False"
| "re_match (AnyChar # r) (x # xs) = (\<not> line_terminator x \<and> re_match r xs)"
| "re_match (AnyStar # r) [] = re_match r []"
| "re_match (AnyStar # r) (x # xs) =
     (re_match r (x # xs) \<or> (\<not> line_terminator x \<and> re_match (AnyStar # r) xs))"

section \<open>Numbers and their decimal spelling\<close>

text \<open>
  Template literals spell numbers in decimal: \<^verbatim>\<open>`msg_${Date.now()}_${this.messageCounter}_...`\<close>.
\<close>

fun dec_nat :: "nat \<Rightarrow> jstring" where
  "dec_nat n = (if n < 10 then [48 + of_nat n] else dec_nat (n div 10) @ [48 + of_nat (n mod 10)])"

declare dec_nat.simps [simp del]

definition dec_int :: "int \<Rightarrow> jstring" where
  "dec_int i = (if i < 0 then of_char (CHR ''-'') # dec_nat (nat (- i)) else dec_nat (nat i))"

text \<open>Subtraction and comparison of numbers, with NaN and the infinities.\<close>

fun num_sub :: "jsnum \<Rightarrow> jsnum \<Rightarrow> jsnum" where
  "num_sub (Fin a) (Fin b) = Fin (a - b)"
| "num_sub NaN y = NaN"
| "num_sub x NaN = NaN"
| "num_sub PosInf PosInf = NaN"
| "num_sub NegInf NegInf = NaN"
| "num_sub PosInf y = PosInf"
| "num_sub NegInf y = NegInf"
| "num_sub (Fin a) PosInf = NegInf"
| "num_sub (Fin a) NegInf = PosInf"

fun num_less :: "jsnum \<Rightarrow> jsnum \<Rightarrow> bool" where
  "num_less (Fin a) (Fin b) = (a < b)"
| "num_less NaN y = False"
| "num_less x NaN = False"
| "num_less PosInf y = False"
| "num_less x PosInf = True"
| "num_less NegInf y = (y \<noteq> NegInf)"
| "num_less x NegInf = False"

section \<open>The host\<close>

text \<open>
  A handler, seen from the bridge: called with the payload and the meta object it
  returns a value, returns a promise that settles later, or throws.
\<close>

datatype deferred = Fulfils jsval | Rejects jsval

datatype outcome = Returns jsval | Defers deferred | Throws jsval

type_synonym handler = "jsval \<Rightarrow> jsval \<Rightarrow> outcome"

text \<open>
  The global callback is given \<^verbatim>\<open>meta.respond\<close> and may call it while it runs. What it
  does is a script: it returns, it throws, or it calls \<^verbatim>\<open>meta.respond(data)\<close> and goes
  on with the first script when the call returns and with the second when the call
  throws.
\<close>

datatype script = Return | Throw jsval | Respond jsval script script

type_synonym callback = "jsval \<Rightarrow> jsval \<Rightarrow> script"

text \<open>
  The exceptions the modelled code can raise. \<open>ReferenceError\<close> is what evaluating
  \<^verbatim>\<open>new UniCanvasError(...)\<close> raises: the module of the bridge (lines 514 to 891)
  neither defines nor imports \<^verbatim>\<open>UniCanvasError\<close>, so the name is unbound wherever the
  bridge uses it, and the expression throws before its arguments are evaluated and
  before the enclosing \<^verbatim>\<open>throw\<close> or call takes place. \<open>DOMException\<close> is what
  \<^verbatim>\<open>window.parent.postMessage\<close> raises on a target it refuses.
\<close>

datatype fault = TypeError | SyntaxError | ReferenceError | DOMException

text \<open>
  What the bridge takes from its surroundings and the model does not compute:
  \<^verbatim>\<open>window.location.origin\<close>; the random suffix of the n-th generated id
  (\<^verbatim>\<open>Math.random().toString(36).substr(2, 9)\<close>); the number a string spells
  (StringToNumber); the spelling of a number beyond \<open>2^53\<close>, where not every integer
  is a double and where, from \<open>10^21\<close> on, the spelling is in exponent form; what a
  member inherited from \<^verbatim>\<open>Object.prototype\<close> does when it is called as a
  handler; what a read of \<^verbatim>\<open>this.messageHandlers[key]\<close> finds on a function that has
  become the prototype of the handler table, or on \<^verbatim>\<open>Function.prototype\<close> and
  \<^verbatim>\<open>Object.prototype\<close> behind it (an exception, nothing or a falsy value, or a value
  taken as a handler); the regular expression engine on the expressions the matcher
  above does not cover; the exception \<^verbatim>\<open>window.parent.postMessage\<close> raises for a
  target argument, if any; and the \<^verbatim>\<open>message\<close> of an exception object.
\<close>

record host =
  location_origin :: jstring
  random_suffix :: "nat \<Rightarrow> jstring"
  string_number :: "jstring \<Rightarrow> jsnum"
  big_number_text :: "int \<Rightarrow> jstring"
  inherited_call :: "jstring \<Rightarrow> handler"
  function_member :: "handler \<Rightarrow> jstring \<Rightarrow> fault + handler option"
  other_regexp :: "jstring \<Rightarrow> jstring \<Rightarrow> bool option"
  transport_refusal :: "jsval \<Rightarrow> fault option"
  exception_message :: "fault \<Rightarrow> jstring"

text \<open>
  An exception object as the bridge reads it in a \<^verbatim>\<open>catch\<close>: it has a \<^verbatim>\<open>message\<close> and
  no \<^verbatim>\<open>details\<close>.
\<close>

definition exception_object :: "host \<Rightarrow> fault \<Rightarrow> jsval" where
  "exception_object h x = JObj [(js ''message'', JStr (exception_message h x))]"

text \<open>
  ToString, as applied by a template literal and, through ToPropertyKey, by
  \<^verbatim>\<open>obj[key]\<close>. An integer up to \<open>2^53\<close> is spelled in decimal. An array is its
  elements joined by commas, null and undefined counting as empty. An object of the
  model has no callable property of its own, so the conversion reaches
  \<^verbatim>\<open>Object.prototype.toString\<close>, unless an own property named \<^verbatim>\<open>toString\<close> hides it:
  then no method yields a primitive, and the conversion throws.
\<close>

fun number_text :: "host \<Rightarrow> jsnum \<Rightarrow> jstring" where
  "number_text h (Fin n) = (if \<bar>n\<bar> \<le> 2 ^ 53 then dec_int n else big_number_text h n)"
| "number_text h NaN = js ''NaN''"
| "number_text h PosInf = js ''Infinity''"
| "number_text h NegInf = js ''-Infinity''"

fun join_strings :: "(fault + jstring) list \<Rightarrow> fault + jstring" where
  "join_strings [] = Inr []"
| "join_strings [x] = x"
| "join_strings (x # y # ys) =
     (case x of
        Inl e \<Rightarrow> Inl e
      | Inr a \<Rightarrow>
          (case join_strings (y # ys) of
             Inl e \<Rightarrow> Inl e
           | Inr b \<Rightarrow> Inr (a @ of_char (CHR '','') # b)))"

fun to_string :: "host \<Rightarrow> jsval \<Rightarrow> fault + jstring" where
  "to_string h JUndefined = Inr (js ''undefined'')"
| "to_string h JNull = Inr (js ''null'')"
| "to_string h (JBool b) = Inr (if b then js ''true'' else js ''false'')"
| "to_string h (JNum n) = Inr (number_text h n)"
| "to_string h (JStr s) = Inr s"
| "to_string h (JArr xs) =
     join_strings (map (\<lambda>x. if x = JUndefined \<or> x = JNull then Inr [] else to_string h x) xs)"
| "to_string h (JObj kvs) =
     (if js ''toString'' \<in> fst ` set kvs then Inl TypeError else Inr (js ''[object Object]''))"

text \<open>
  ToNumber, as applied by the binary minus of \<^verbatim>\<open>Date.now() - message.timestamp\<close>. An
  array or an object is first made a string as above; the string of an object spells
  no number.
\<close>

fun to_number :: "host \<Rightarrow> jsval \<Rightarrow> fault + jsnum" where
  "to_number h JUndefined = Inr NaN"
| "to_number h JNull = Inr (Fin 0)"
| "to_number h (JBool b) = Inr (Fin (if b then 1 else 0))"
| "to_number h (JNum n) = Inr n"
| "to_number h (JStr s) = Inr (string_number h s)"
| "to_number h (JArr xs) =
     (case to_string h (JArr xs) of
        Inl e \<Rightarrow> Inl e
      | Inr t \<Rightarrow> Inr (string_number h t))"
| "to_number h (JObj kvs) =
     (if js ''toString'' \<in> fst ` set kvs then Inl TypeError else Inr NaN)"

text \<open>ToPropertyKey of the value between the brackets of \<^verbatim>\<open>obj[key]\<close>.\<close>

definition property_key :: "host \<Rightarrow> jsval \<Rightarrow> fault + jstring" where
  "property_key h v = to_string h v"

text \<open>
  \<^verbatim>\<open>this.messageHandlers\<close> and \<^verbatim>\<open>this.pendingResponses\<close> are created as \<^verbatim>\<open>{}\<close>, so a
  read under one of these keys finds the member of \<^verbatim>\<open>Object.prototype\<close> when the
  object has no own property of that name.
\<close>

definition object_prototype_keys :: "jstring list" where
  "object_prototype_keys = map js
     [''constructor'', ''__defineGetter__'', ''__defineSetter__'', ''hasOwnProperty'',
      ''__lookupGetter__'', ''__lookupSetter__'', ''isPrototypeOf'', ''propertyIsEnumerable'',
      ''toString'', ''valueOf'', ''__proto__'', ''toLocaleString'']"

datatype 'a lookup = Own 'a | Inherited | Absent

definition js_lookup :: "(jstring \<rightharpoonup> 'a) \<Rightarrow> jstring \<Rightarrow> 'a lookup" where
  "js_lookup obj k =
     (case obj k of
        Some v \<Rightarrow> Own v
      | None \<Rightarrow> if k \<in> set object_prototype_keys then Inherited else Absent)"

subsection \<open>The origin check\<close>

text \<open>
  \<^verbatim>\<open>new RegExp(`^${pattern}$`).test(origin)\<close>: the matcher above where the body has
  the form it covers, the host's engine otherwise. None is the \<^verbatim>\<open>SyntaxError\<close> the
  constructor throws on a body that is no regular expression.
\<close>

definition regexp_test :: "host \<Rightarrow> jstring \<Rightarrow> jstring \<Rightarrow> bool option" where
  "regexp_test h body s =
     (case parse_body body of
        Some r \<Rightarrow> Some (re_match r s)
      | None \<Rightarrow> other_regexp h body s)"

text \<open>
  \<^verbatim>\<open>_isOriginAllowed\<close> (lines 860 to 887). \<open>some_allowed\<close> is the callback of
  \<^verbatim>\<open>Array.prototype.some\<close> run over the list from the left, stopping at the first
  pattern that answers true, or at the first whose regular expression cannot be built:
  the exception then leaves \<^verbatim>\<open>_isOriginAllowed\<close>.
\<close>

fun some_allowed :: "host \<Rightarrow> jstring list \<Rightarrow> jstring \<Rightarrow> fault + bool" where
  "some_allowed h [] origin = Inr False"
| "some_allowed h (allowedOrigin # rest) origin =
     (if allowedOrigin = origin then Inr True
      else if star \<in> set allowedOrigin then
        (case regexp_test h (replace_stars allowedOrigin) origin of
           None \<Rightarrow> Inl SyntaxError
         | Some True \<Rightarrow> Inr True
         | Some False \<Rightarrow> some_allowed h rest origin)
      else some_allowed h rest origin)"

definition isOriginAllowed :: "host \<Rightarrow> jstring list \<Rightarrow> jstring \<Rightarrow> fault + bool" where
  "isOriginAllowed h allowedOrigins origin =
     (if length allowedOrigins = 0 then Inr False
      else if [star] \<in> set allowedOrigins then Inr True
      else some_allowed h allowedOrigins origin)"

section \<open>JSON.stringify\<close>

text \<open>
  \<^verbatim>\<open>JSON.stringify(message)\<close> on the values of the model. A property whose value is
  undefined is left out of an object and printed as null in an array; NaN and the
  infinities print as null; a finite number prints as ToString spells it. Strings are
  quoted as QuoteJSONString does.
\<close>

definition hex_digit :: "nat \<Rightarrow> 16 word" where
  "hex_digit n = (if n < 10 then 48 + of_nat n else 87 + of_nat n)"

definition unicode_escape :: "16 word \<Rightarrow> jstring" where
  "unicode_escape c =
     [0x5C, of_char (CHR ''u''), hex_digit (unat c div 4096), hex_digit (unat c div 256 mod 16),
      hex_digit (unat c div 16 mod 16), hex_digit (unat c mod 16)]"

definition is_high_surrogate :: "16 word \<Rightarrow> bool" where
  "is_high_surrogate c = (0xD800 \<le> c \<and> c \<le> 0xDBFF)"

definition is_low_surrogate :: "16 word \<Rightarrow> bool" where
  "is_low_surrogate c = (0xDC00 \<le> c \<and> c \<le> 0xDFFF)"

fun quote_chars :: "jstring \<Rightarrow> jstring" where
  "quote_chars [] = []"
| "quote_chars (c # cs) =
     (if c = 0x22 then [0x5C, 0x22] @ quote_chars cs
      else if c = 0x5C then [0x5C, 0x5C] @ quote_chars cs
      else if c = 0x08 then [0x5C, of_char (CHR ''b'')] @ quote_chars cs
      else if c = 0x0C then [0x5C, of_char (CHR ''f'')] @ quote_chars cs
      else if c = 0x0A then [0x5C, of_char (CHR ''n'')] @ quote_chars cs
      else if c = 0x0D then [0x5C, of_char (CHR ''r'')] @ quote_chars cs
      else if c = 0x09 then [0x5C, of_char (CHR ''t'')] @ quote_chars cs
      else if c < 0x20 then unicode_escape c @ quote_chars cs
      else if is_high_surrogate c then
        (case cs of
           [] \<Rightarrow> unicode_escape c
         | d # ds \<Rightarrow>
             if is_low_surrogate d then c # d # quote_chars ds
             else unicode_escape c @ quote_chars cs)
      else if is_low_surrogate c then unicode_escape c @ quote_chars cs
      else c # quote_chars cs)"

definition quote_json :: "jstring \<Rightarrow> jstring" where
  "quote_json s = [0x22] @ quote_chars s @ [0x22]"

fun join_comma :: "jstring list \<Rightarrow> jstring" where
  "join_comma [] = []"
| "join_comma [x] = x"
| "join_comma (x # y # ys) = x @ of_char (CHR '','') # join_comma (y # ys)"

fun JSON_stringify :: "host \<Rightarrow> jsval \<Rightarrow> jstring" where
  "JSON_stringify h JUndefined = js ''null''"
| "JSON_stringify h JNull = js ''null''"
| "JSON_stringify h (JBool b) = (if b then js ''true'' else js ''false'')"
| "JSON_stringify h (JNum (Fin n)) = number_text h (Fin n)"
| "JSON_stringify h (JNum NaN) = js ''null''"
| "JSON_stringify h (JNum PosInf) = js ''null''"
| "JSON_stringify h (JNum NegInf) = js ''null''"
| "JSON_stringify h (JStr s) = quote_json s"
| "JSON_stringify h (JArr xs) = js ''['' @ join_comma (map (JSON_stringify h) xs) @ js '']''"
| "JSON_stringify h (JObj kvs) =
     js ''{'' @
     join_comma (map (\<lambda>(k, v). quote_json k @ js '':'' @ JSON_stringify h v)
                   (filter (\<lambda>(k, v). v \<noteq> JUndefined) kvs)) @
     js ''}''"

text \<open>
  The number of bytes of a string in UTF-8, the encoding of JSON text: one byte below
  U+0080, two below U+0800, four for a surrogate pair, three otherwise.
\<close>

fun utf8_byte_length :: "jstring \<Rightarrow> nat" where
  "utf8_byte_length [] = 0"
| "utf8_byte_length (c # cs) =
     (if c < 0x80 then 1 + utf8_byte_length cs
      else if c < 0x800 then 2 + utf8_byte_length cs
      else if is_high_surrogate c then
        (case cs of
           [] \<Rightarrow> 3
         | d # ds \<Rightarrow>
             if is_low_surrogate d then 4 + utf8_byte_length ds
             else 3 + utf8_byte_length cs)
      else 3 + utf8_byte_length cs)"

section \<open>The bridge and its surroundings\<close>

text \<open>
  A promise is named by its index in \<open>promises\<close>. Its state is None until it is
  settled; \<open>pr_messageId\<close> remembers the message the promise was created for. A
  promise of the bridge is fulfilled with a value, or rejected with an exception: the
  bridge has no other value to reject with, since it cannot build a \<^verbatim>\<open>UniCanvasError\<close>.
  An entry of \<^verbatim>\<open>this.pendingResponses\<close> holds the \<^verbatim>\<open>resolve\<close> and \<^verbatim>\<open>reject\<close> functions
  of one promise, which the model stores as that promise's index, and the timer's id.
\<close>

datatype settled = Fulfilled jsval | Rejected fault

record promise =
  pr_messageId :: jstring
  pr_state :: "settled option"

record pending =
  p_promise :: nat
  p_timeoutId :: nat

text \<open>
  A scheduled timer keeps what the closure passed to \<^verbatim>\<open>setTimeout\<close> captured
  (\<^verbatim>\<open>messageId\<close> and \<^verbatim>\<open>reject\<close>) and its delay.
\<close>

record timer =
  t_messageId :: jstring
  t_promise :: nat
  t_delay :: int

text \<open>
  A handler's result on its way through \<^verbatim>\<open>Promise.resolve(result).then(...).catch(...)\<close>:
  the message it answers and how the result settles.
\<close>

record job =
  j_message :: jsval
  j_result :: deferred

datatype console_entry =
    Log_initialized
  | Log_listener_initialized
  | Log_updated_origins "jstring list"
  | Log_sending jstring jsval jsval
  | Log_registered_handler jstring
  | Log_registered_callback
  | Log_sending_response jsval jsval
  | Log_received jsval jstring jsval
  | Warn_unauthorized jstring
  | Warn_invalid jsval
  | Error_processing jsval

text \<open>
  The fields of the instance (\<^verbatim>\<open>this.options\<close>, \<^verbatim>\<open>this.messageHandlers\<close> and the
  function that has been made its prototype, if any, \<^verbatim>\<open>this.globalMessageCallback\<close>,
  \<^verbatim>\<open>this.pendingResponses\<close>, \<^verbatim>\<open>this.messageCounter\<close>), followed by the part of the page
  the bridge acts on: the timers that are scheduled and neither fired nor cleared, the
  promises, the results waiting in promise chains, the calls of
  \<^verbatim>\<open>window.parent.postMessage\<close> that the host accepted, the console, and three records
  kept for the statements below: every call the bridge makes of a stored \<^verbatim>\<open>resolve\<close> or
  \<^verbatim>\<open>reject\<close> (\<open>continuations\<close>), every call of a handler or of the global callback
  (\<open>dispatched\<close>), and the exceptions that leave the listener, a timer or a promise
  callback uncaught (\<open>faults\<close>).
\<close>

record state =
  allowedOrigins :: "jstring list"
  messageTimeout :: int
  maxMessageSize :: int
  debug :: bool
  messageHandlers :: "jstring \<rightharpoonup> handler"
  handlersPrototype :: "handler option"
  globalMessageCallback :: "callback option"
  pendingResponses :: "jstring \<rightharpoonup> pending"
  messageCounter :: nat
  timers :: "nat \<rightharpoonup> timer"
  nextTimer :: nat
  promises :: "promise list"
  jobs :: "job list"
  sent :: "(jsval \<times> jsval) list"
  console :: "console_entry list"
  continuations :: "(nat \<times> settled) list"
  dispatched :: "(jsval \<times> jsval) list"
  faults :: "fault list"

text \<open>
  The constructor (lines 519 to 538). \<^verbatim>\<open>x || d\<close> replaces a missing option and a
  zero by the default; \<^verbatim>\<open>_initMessageListener\<close> installs the listener modelled by
  \<open>listener\<close> below. The option \<^verbatim>\<open>securityLevel\<close> is stored and never read; it is
  left out.
\<close>

record options =
  o_allowedOrigins :: "jstring list option"
  o_messageTimeout :: "int option"
  o_maxMessageSize :: "int option"
  o_debug :: "bool option"

definition or_default :: "int option \<Rightarrow> int \<Rightarrow> int" where
  "or_default v d = (case v of None \<Rightarrow> d | Some n \<Rightarrow> if n = 0 then d else n)"

definition constructor :: "options \<Rightarrow> state" where
  "constructor opts =
     (let dbg = (case o_debug opts of None \<Rightarrow> False | Some b \<Rightarrow> b)
      in \<lparr> allowedOrigins = (case o_allowedOrigins opts of None \<Rightarrow> [] | Some l \<Rightarrow> l),
           messageTimeout = or_default (o_messageTimeout opts) 5000,
           maxMessageSize = or_default (o_maxMessageSize opts) (1024 * 1024),
           debug = dbg,
           messageHandlers = Map.empty,
           handlersPrototype = None,
           globalMessageCallback = None,
           pendingResponses = Map.empty,
           messageCounter = 0,
           timers = Map.empty,
           nextTimer = 0,
           promises = [],
           jobs = [],
           sent = [],
           console = (if dbg then [Log_listener_initialized, Log_initialized] else []),
           continuations = [],
           dispatched = [],
           faults = [] \<rparr>)"

text \<open>
  A line on the console in debug mode. Where the line is a template literal that holds
  a value (\<^verbatim>\<open>`Sending message ${messageId} to ${targetOrigin}:`\<close>), the value is made a
  string first, which can throw; nothing is evaluated when debug is off.
\<close>

definition console_debug :: "console_entry \<Rightarrow> state \<Rightarrow> state" where
  "console_debug e s = (if debug s then s\<lparr>console := console s @ [e]\<rparr> else s)"

definition template_debug :: "host \<Rightarrow> jsval \<Rightarrow> console_entry \<Rightarrow> state \<Rightarrow> fault + state" where
  "template_debug h v e s =
     (case (if debug s then to_string h v else Inr []) of
        Inl x \<Rightarrow> Inl x
      | Inr t \<Rightarrow> Inr (console_debug e s))"

subsection \<open>Timers, promises, transport\<close>

definition setTimeout :: "timer \<Rightarrow> state \<Rightarrow> nat \<times> state" where
  "setTimeout t s =
     (nextTimer s, s\<lparr>timers := (timers s)(nextTimer s \<mapsto> t), nextTimer := nextTimer s + 1\<rparr>)"

definition clearTimeout :: "nat \<Rightarrow> state \<Rightarrow> state" where
  "clearTimeout tid s = s\<lparr>timers := (timers s)(tid := None)\<rparr>"

definition new_promise :: "jstring \<Rightarrow> state \<Rightarrow> nat \<times> state" where
  "new_promise messageId s =
     (length (promises s),
      s\<lparr>promises := promises s @ [\<lparr>pr_messageId = messageId, pr_state = None\<rparr>]\<rparr>)"

text \<open>
  Settling promise \<open>p\<close> takes effect only if nothing has settled it before. Calling
  its stored \<^verbatim>\<open>resolve\<close> or \<^verbatim>\<open>reject\<close> function does that and is recorded. When the
  executor of \<^verbatim>\<open>new Promise\<close> throws, the constructor rejects the promise with what was
  thrown; this is not a call made by the bridge and is not recorded.
\<close>

definition settled_promises :: "nat \<Rightarrow> settled \<Rightarrow> promise list \<Rightarrow> promise list" where
  "settled_promises p r ps =
     (if p < length ps \<and> pr_state (ps ! p) = None then ps[p := (ps ! p)\<lparr>pr_state := Some r\<rparr>]
      else ps)"

definition settle :: "nat \<Rightarrow> settled \<Rightarrow> state \<Rightarrow> state" where
  "settle p r s =
     s\<lparr>promises := settled_promises p r (promises s),
       continuations := continuations s @ [(p, r)]\<rparr>"

definition executor_end :: "nat \<Rightarrow> fault option \<times> state \<Rightarrow> state" where
  "executor_end p r =
     (case fst r of
        None \<Rightarrow> snd r
      | Some x \<Rightarrow> (snd r)\<lparr>promises := settled_promises p (Rejected x) (promises (snd r))\<rparr>)"

text \<open>
  \<^verbatim>\<open>window.parent.postMessage(message, targetOrigin)\<close>: the host refuses some targets
  with an exception (a string that is neither \<^verbatim>\<open>*\<close> nor \<^verbatim>\<open>/\<close> nor an URL, for one);
  otherwise the call is recorded. The values of the model can all be cloned. The
  literal \<^verbatim>\<open>'*'\<close> is never refused.
\<close>

definition transport_check :: "host \<Rightarrow> jsval \<Rightarrow> fault option" where
  "transport_check h targetOrigin =
     (if targetOrigin = JStr (js ''*'') then None else transport_refusal h targetOrigin)"

definition window_parent_postMessage ::
  "host \<Rightarrow> jsval \<Rightarrow> jsval \<Rightarrow> state \<Rightarrow> fault option \<times> state" where
  "window_parent_postMessage h m targetOrigin s =
     (case transport_check h targetOrigin of
        Some x \<Rightarrow> (Some x, s)
      | None \<Rightarrow> (None, s\<lparr>sent := sent s @ [(m, targetOrigin)]\<rparr>))"

subsection \<open>Sending\<close>

text \<open>
  \<^verbatim>\<open>_generateMessageId\<close> (lines 849 to 852); \<open>now\<close> is the value of \<^verbatim>\<open>Date.now()\<close>, an
  integer below \<open>2^53\<close>, as the counter is.
\<close>

definition message_id :: "host \<Rightarrow> int \<Rightarrow> nat \<Rightarrow> jstring" where
  "message_id h now n =
     js ''msg_'' @ dec_int now @ js ''_'' @ dec_nat n @ js ''_'' @ random_suffix h n"

definition generateMessageId :: "host \<Rightarrow> int \<Rightarrow> state \<Rightarrow> jstring \<times> state" where
  "generateMessageId h now s =
     (let s' = s\<lparr>messageCounter := messageCounter s + 1\<rparr>
      in (message_id h now (messageCounter s'), s'))"

text \<open>
  \<^verbatim>\<open>allowOrigins\<close> (lines 544 to 559); None is an argument that is not an array. The
  refusal is meant to throw a \<^verbatim>\<open>UniCanvasError\<close>; evaluating the name throws
  \<open>ReferenceError\<close> instead, here and in the other methods.
\<close>

definition allowOrigins :: "jstring list option \<Rightarrow> state \<Rightarrow> (fault + jstring list) \<times> state" where
  "allowOrigins origins s =
     (case origins of
        None \<Rightarrow> (Inl ReferenceError, s)
      | Some l \<Rightarrow>
          (let s1 = s\<lparr>allowedOrigins := allowedOrigins s @ l\<rparr>;
               s2 = console_debug (Log_updated_origins (allowedOrigins s1)) s1
           in (Inr (allowedOrigins s2), s2)))"

text \<open>
  \<^verbatim>\<open>postMessage\<close> (lines 568 to 631). The transport call is a parameter \<open>tr\<close> here, so
  that a statement can range over everything the call may do before it returns or
  throws; \<open>postMessage\<close> is the method with \<^verbatim>\<open>window.parent.postMessage\<close> in its place.
  The executor of \<^verbatim>\<open>new Promise\<close> runs at once, inside the call; what the transport
  throws there rejects the promise, which is returned all the same, with its entry and
  its timer in place. Without \<^verbatim>\<open>requiresResponse\<close> the exception leaves \<^verbatim>\<open>postMessage\<close>.
  \<open>requiresResponse\<close> is the value of that option, undefined when not given; \<open>now\<close> is
  the value of \<^verbatim>\<open>Date.now()\<close>, which the method reads for the id and again for the
  timestamp and which is taken to be the same both times.
\<close>

datatype send_result = Sent_immediately jsval | Awaiting nat

definition envelope :: "host \<Rightarrow> int \<Rightarrow> jstring \<Rightarrow> jsval \<Rightarrow> jsval \<Rightarrow> jsval \<Rightarrow> jsval" where
  "envelope h now messageId targetOrigin m requiresResponse =
     JObj [(js ''id'', JStr messageId),
           (js ''timestamp'', JNum (Fin now)),
           (js ''source'', JStr (location_origin h)),
           (js ''target'', targetOrigin),
           (js ''payload'', m),
           (js ''requiresResponse'', js_or requiresResponse (JBool False))]"

definition register_pending :: "jstring \<Rightarrow> state \<Rightarrow> nat \<times> state" where
  "register_pending messageId s =
     (let (p, s1) = new_promise messageId s;
          (timeoutId, s2) =
             setTimeout \<lparr>t_messageId = messageId, t_promise = p, t_delay = messageTimeout s1\<rparr> s1
      in (p, s2\<lparr>pendingResponses :=
                  (pendingResponses s2)(messageId \<mapsto> \<lparr>p_promise = p, p_timeoutId = timeoutId\<rparr>)\<rparr>))"

definition postMessage_via ::
  "(jsval \<Rightarrow> jsval \<Rightarrow> state \<Rightarrow> fault option \<times> state) \<Rightarrow> host \<Rightarrow> int \<Rightarrow> jsval \<Rightarrow> jsval \<Rightarrow> jsval
   \<Rightarrow> state \<Rightarrow> (fault + send_result) \<times> state" where
  "postMessage_via tr h now m targetOrigin requiresResponse s =
     (if \<not> truthy m \<or> \<not> typeof_object m then (Inl ReferenceError, s)
      else if \<not> truthy targetOrigin then (Inl ReferenceError, s)
      else
        (let messageSize = int (length (JSON_stringify h m))
         in if messageSize > maxMessageSize s then (Inl ReferenceError, s)
            else
              (let (messageId, s1) = generateMessageId h now s;
                   fullMessage = envelope h now messageId targetOrigin m requiresResponse
               in case template_debug h targetOrigin
                         (Log_sending messageId targetOrigin fullMessage) s1 of
                    Inl x \<Rightarrow> (Inl x, s1)
                  | Inr s2 \<Rightarrow>
                      if truthy requiresResponse then
                        (let (p, s3) = register_pending messageId s2
                         in (Inr (Awaiting p), executor_end p (tr fullMessage targetOrigin s3)))
                      else
                        (case tr fullMessage targetOrigin s2 of
                           (Some x, s3) \<Rightarrow> (Inl x, s3)
                         | (None, s3) \<Rightarrow>
                             (Inr (Sent_immediately
                                     (JObj [(js ''sent'', JBool True), (js ''id'', JStr messageId)])),
                              s3)))))"

definition postMessage ::
  "host \<Rightarrow> int \<Rightarrow> jsval \<Rightarrow> jsval \<Rightarrow> jsval \<Rightarrow> state \<Rightarrow> (fault + send_result) \<times> state" where
  "postMessage h = postMessage_via (window_parent_postMessage h) h"

text \<open>
  \<^verbatim>\<open>registerHandler\<close> (lines 638 to 650) and \<^verbatim>\<open>onMessage\<close> (lines 656 to 668); None is
  an argument that is not a function. The assignment \<^verbatim>\<open>this.messageHandlers[type] =
  handler\<close> creates or overwrites an own property, except under the key \<^verbatim>\<open>__proto__\<close>,
  where it runs the setter of \<^verbatim>\<open>Object.prototype\<close> and makes the handler the prototype
  of the table.
\<close>

definition registerHandler :: "host \<Rightarrow> jsval \<Rightarrow> handler option \<Rightarrow> state \<Rightarrow> fault option \<times> state" where
  "registerHandler h type handler s =
     (case handler of
        None \<Rightarrow> (Some ReferenceError, s)
      | Some f \<Rightarrow>
          (case property_key h type of
             Inl x \<Rightarrow> (Some x, s)
           | Inr k \<Rightarrow>
               (None,
                console_debug (Log_registered_handler k)
                  (if k = js ''__proto__'' then s\<lparr>handlersPrototype := Some f\<rparr>
                   else s\<lparr>messageHandlers := (messageHandlers s)(k \<mapsto> f)\<rparr>))))"

definition onMessage :: "callback option \<Rightarrow> state \<Rightarrow> fault option \<times> state" where
  "onMessage cb s =
     (case cb of
        None \<Rightarrow> (Some ReferenceError, s)
      | Some f \<Rightarrow> (None, console_debug Log_registered_callback (s\<lparr>globalMessageCallback := Some f\<rparr>)))"

text \<open>
  \<^verbatim>\<open>respondToMessage\<close> (lines 676 to 704); \<open>targetOrigin\<close> and \<open>status\<close> are the two
  options, undefined when not given.
\<close>

definition respondToMessage ::
  "host \<Rightarrow> int \<Rightarrow> jsval \<Rightarrow> jsval \<Rightarrow> jsval \<Rightarrow> jsval \<Rightarrow> state \<Rightarrow> (fault + jsval) \<times> state" where
  "respondToMessage h now messageId responseData targetOrigin status s =
     (if \<not> truthy messageId then (Inl ReferenceError, s)
      else
        (let (newId, s1) = generateMessageId h now s;
             responseMessage =
               JObj [(js ''id'', JStr newId),
                     (js ''responseToId'', messageId),
                     (js ''timestamp'', JNum (Fin now)),
                     (js ''source'', JStr (location_origin h)),
                     (js ''payload'', responseData),
                     (js ''isResponse'', JBool True),
                     (js ''status'', js_or status (JStr (js ''success'')))]
         in case template_debug h messageId (Log_sending_response messageId responseMessage) s1 of
              Inl x \<Rightarrow> (Inl x, s1)
            | Inr s2 \<Rightarrow>
                (case window_parent_postMessage h responseMessage
                        (if truthy targetOrigin then targetOrigin else JStr (js ''*'')) s2 of
                   (Some x, s3) \<Rightarrow> (Inl x, s3)
                 | (None, s3) \<Rightarrow> (Inr responseMessage, s3))))"

subsection \<open>Receiving\<close>

text \<open>
  \<^verbatim>\<open>_validateMessage\<close> (lines 824 to 842); \<open>now\<close> is the value of \<^verbatim>\<open>Date.now()\<close>. The
  subtraction converts the timestamp to a number, which can throw.
\<close>

definition validateMessage :: "host \<Rightarrow> int \<Rightarrow> jsval \<Rightarrow> fault + bool" where
  "validateMessage h now m =
     (if \<not> truthy m \<or> \<not> typeof_object m then Inr False
      else if \<not> truthy (get_field m (js ''id'')) \<or> \<not> truthy (get_field m (js ''timestamp''))
              \<or> \<not> truthy (get_field m (js ''source'')) \<or> \<not> truthy (get_field m (js ''payload''))
      then Inr False
      else
        (case to_number h (get_field m (js ''timestamp'')) of
           Inl x \<Rightarrow> Inl x
         | Inr n \<Rightarrow>
             (let messageAge = num_sub (Fin now) n
              in if num_less messageAge (Fin 0) \<or> num_less (Fin 60000) messageAge then Inr False
                 else Inr True)))"

text \<open>
  The response branch of the listener (lines 735 to 753). With status \<^verbatim>\<open>error\<close> the
  timer has been cleared when the argument of \<^verbatim>\<open>pendingResponse.reject(...)\<close> is
  evaluated and throws: \<^verbatim>\<open>reject\<close> is not called and the \<^verbatim>\<open>delete\<close> after it is not
  reached. Under a key that only \<^verbatim>\<open>Object.prototype\<close> knows, \<^verbatim>\<open>pendingResponse\<close> is a
  built-in member with neither a \<^verbatim>\<open>resolve\<close> nor a \<^verbatim>\<open>reject\<close>: with status \<^verbatim>\<open>error\<close>
  the argument throws as before, otherwise the call of the missing function does.
\<close>

definition handle_response :: "host \<Rightarrow> jsval \<Rightarrow> state \<Rightarrow> state" where
  "handle_response h m s =
     (case property_key h (get_field m (js ''responseToId'')) of
        Inl x \<Rightarrow> s\<lparr>faults := faults s @ [x]\<rparr>
      | Inr k \<Rightarrow>
          (case js_lookup (pendingResponses s) k of
             Absent \<Rightarrow> s
           | Inherited \<Rightarrow>
               s\<lparr>faults := faults s @
                    [if get_field m (js ''status'') = JStr (js ''error'') then ReferenceError
                     else TypeError]\<rparr>
           | Own pendingResponse \<Rightarrow>
               (let s1 = clearTimeout (p_timeoutId pendingResponse) s
                in if get_field m (js ''status'') = JStr (js ''error'')
                   then s1\<lparr>faults := faults s1 @ [ReferenceError]\<rparr>
                   else
                     (let s2 = settle (p_promise pendingResponse)
                                 (Fulfilled (get_field m (js ''payload''))) s1
                      in s2\<lparr>pendingResponses := (pendingResponses s2)(k := None)\<rparr>))))"

text \<open>
  The error reply, written twice in the source: in the \<^verbatim>\<open>catch\<close> block (lines 801 to
  809) and in the rejection callback (lines 773 to 779). Reading \<^verbatim>\<open>error.message\<close>
  throws when the failure is null or undefined; what \<^verbatim>\<open>respondToMessage\<close> throws is
  not caught either.
\<close>

definition respond_error :: "host \<Rightarrow> int \<Rightarrow> jsval \<Rightarrow> jsval \<Rightarrow> state \<Rightarrow> state" where
  "respond_error h now m error s =
     (if error = JUndefined \<or> error = JNull then s\<lparr>faults := faults s @ [TypeError]\<rparr>
      else
        (case respondToMessage h now (get_field m (js ''id''))
                (JObj [(js ''message'', get_field error (js ''message'')),
                       (js ''details'', js_or (get_field error (js ''details'')) (JObj []))])
                (get_field m (js ''source'')) (JStr (js ''error'')) s of
           (Inl x, s') \<Rightarrow> s'\<lparr>faults := faults s' @ [x]\<rparr>
         | (Inr r, s') \<Rightarrow> s'))"

text \<open>The \<^verbatim>\<open>catch\<close> block (lines 797 to 810).\<close>

definition on_throw :: "host \<Rightarrow> int \<Rightarrow> jsval \<Rightarrow> jsval \<Rightarrow> state \<Rightarrow> state" where
  "on_throw h now m error s =
     (let s1 = s\<lparr>console := console s @ [Error_processing error]\<rparr>
      in if truthy (get_field m (js ''requiresResponse'')) then respond_error h now m error s1
         else s1)"

text \<open>
  \<^verbatim>\<open>messageType && this.messageHandlers[messageType]\<close>: the own property, or what the
  prototype chain has under the key. The chain is \<^verbatim>\<open>Object.prototype\<close>, or, once a
  handler has been registered under \<^verbatim>\<open>__proto__\<close>, that function with
  \<^verbatim>\<open>Function.prototype\<close> and \<^verbatim>\<open>Object.prototype\<close> behind it, and then a read under
  \<^verbatim>\<open>__proto__\<close> returns the function itself.
\<close>

definition find_handler :: "host \<Rightarrow> state \<Rightarrow> jsval \<Rightarrow> fault + handler option" where
  "find_handler h s messageType =
     (if \<not> truthy messageType then Inr None
      else
        (case property_key h messageType of
           Inl x \<Rightarrow> Inl x
         | Inr k \<Rightarrow>
             (case messageHandlers s k of
                Some f \<Rightarrow> Inr (Some f)
              | None \<Rightarrow>
                  (case handlersPrototype s of
                     None \<Rightarrow>
                       if k \<in> set object_prototype_keys then Inr (Some (inherited_call h k))
                       else Inr None
                   | Some g \<Rightarrow>
                       if k = js ''__proto__'' then Inr (Some g) else function_member h g k))))"

text \<open>
  The global callback at work (lines 784 to 795): \<^verbatim>\<open>meta.respond\<close> answers only when
  the message requires a response, and throws what \<^verbatim>\<open>respondToMessage\<close> throws. The
  result is what the callback throws in the end, if anything.
\<close>

fun run_callback :: "host \<Rightarrow> int \<Rightarrow> jsval \<Rightarrow> script \<Rightarrow> state \<Rightarrow> jsval option \<times> state" where
  "run_callback h now m Return s = (None, s)"
| "run_callback h now m (Throw error) s = (Some error, s)"
| "run_callback h now m (Respond responseData returned thrown) s =
     (if truthy (get_field m (js ''requiresResponse'')) then
        (case respondToMessage h now (get_field m (js ''id'')) responseData
                (get_field m (js ''source'')) JUndefined s of
           (Inl x, s') \<Rightarrow> run_callback h now m thrown s'
         | (Inr r, s') \<Rightarrow> run_callback h now m returned s')
      else run_callback h now m returned s)"

text \<open>The \<^verbatim>\<open>try\<close> block for a message that is not a response (lines 756 to 796).\<close>

definition handler_meta :: "jsval \<Rightarrow> jsval" where
  "handler_meta m =
     JObj [(js ''source'', get_field m (js ''source'')),
           (js ''messageId'', get_field m (js ''id'')),
           (js ''timestamp'', get_field m (js ''timestamp''))]"

definition dispatch :: "host \<Rightarrow> int \<Rightarrow> jsval \<Rightarrow> state \<Rightarrow> state" where
  "dispatch h now m s =
     (let payload = get_field m (js ''payload'');
          messageType = get_field payload (js ''type'')
      in case find_handler h s messageType of
           Inl x \<Rightarrow> on_throw h now m (exception_object h x) s
         | Inr (Some f) \<Rightarrow>
             (let s1 = s\<lparr>dispatched := dispatched s @ [(payload, handler_meta m)]\<rparr>
              in case f payload (handler_meta m) of
                   Throws error \<Rightarrow> on_throw h now m error s1
                 | Returns v \<Rightarrow>
                     if truthy (get_field m (js ''requiresResponse''))
                     then s1\<lparr>jobs := jobs s1 @ [\<lparr>j_message = m, j_result = Fulfils v\<rparr>]\<rparr>
                     else s1
                 | Defers d \<Rightarrow>
                     if truthy (get_field m (js ''requiresResponse''))
                     then s1\<lparr>jobs := jobs s1 @ [\<lparr>j_message = m, j_result = d\<rparr>]\<rparr>
                     else s1)
         | Inr None \<Rightarrow>
             (case globalMessageCallback s of
                None \<Rightarrow> s
              | Some cb \<Rightarrow>
                  (let s1 = s\<lparr>dispatched := dispatched s @ [(payload, handler_meta m)]\<rparr>;
                       (thrown, s2) = run_callback h now m (cb payload (handler_meta m)) s1
                   in case thrown of
                        None \<Rightarrow> s2
                      | Some error \<Rightarrow> on_throw h now m error s2)))"

text \<open>
  The listener installed by \<^verbatim>\<open>_initMessageListener\<close> (lines 711 to 811), run on a
  message event with the given \<^verbatim>\<open>origin\<close> and \<^verbatim>\<open>data\<close>. Nothing catches what the origin
  check, the validation, the debug line or the response branch throws.
\<close>

definition listener :: "host \<Rightarrow> int \<Rightarrow> jstring \<Rightarrow> jsval \<Rightarrow> state \<Rightarrow> state" where
  "listener h now origin data s =
     (case isOriginAllowed h (allowedOrigins s) origin of
        Inl x \<Rightarrow> s\<lparr>faults := faults s @ [x]\<rparr>
      | Inr False \<Rightarrow> console_debug (Warn_unauthorized origin) s
      | Inr True \<Rightarrow>
          (case validateMessage h now data of
             Inl x \<Rightarrow> s\<lparr>faults := faults s @ [x]\<rparr>
           | Inr False \<Rightarrow> console_debug (Warn_invalid data) s
           | Inr True \<Rightarrow>
               (case template_debug h (get_field data (js ''id''))
                       (Log_received (get_field data (js ''id'')) origin data) s of
                  Inl x \<Rightarrow> s\<lparr>faults := faults s @ [x]\<rparr>
                | Inr s1 \<Rightarrow>
                    if truthy (get_field data (js ''isResponse''))
                       \<and> truthy (get_field data (js ''responseToId''))
                    then handle_response h data s1
                    else dispatch h now data s1)))"

text \<open>
  The two things that happen later on the task queue. A timer fires (the closure of
  lines 608 to 614): it deletes the entry, and then the argument of \<^verbatim>\<open>reject(...)\<close>
  throws, so \<^verbatim>\<open>reject\<close> is not called. A handler's result settles and runs the
  callbacks chained to it (lines 768 to 780): what the first callback throws is handed
  to the second.
\<close>

definition fire_timeout :: "nat \<Rightarrow> state \<Rightarrow> state" where
  "fire_timeout tid s =
     (case timers s tid of
        None \<Rightarrow> s
      | Some t \<Rightarrow>
          s\<lparr>timers := (timers s)(tid := None),
            pendingResponses := (pendingResponses s)(t_messageId t := None),
            faults := faults s @ [ReferenceError]\<rparr>)"

definition run_job :: "host \<Rightarrow> int \<Rightarrow> nat \<Rightarrow> state \<Rightarrow> state" where
  "run_job h now n s =
     (if n < length (jobs s) then
        (let j = jobs s ! n;
             s1 = s\<lparr>jobs := take n (jobs s) @ drop (Suc n) (jobs s)\<rparr>
         in case j_result j of
              Fulfils responseData \<Rightarrow>
                (case respondToMessage h now (get_field (j_message j) (js ''id'')) responseData
                        (get_field (j_message j) (js ''source'')) JUndefined s1 of
                   (Inl x, s2) \<Rightarrow> respond_error h now (j_message j) (exception_object h x) s2
                 | (Inr r, s2) \<Rightarrow> s2)
            | Rejects error \<Rightarrow> respond_error h now (j_message j) error s1)
      else s)"

subsection \<open>Runs of the bridge\<close>

text \<open>
  Everything that can happen to one bridge: a call of one of its methods by the
  application, a message event, a timer firing, a handler's result settling. The
  bridge has no other method; in particular it has none that closes it.
\<close>

datatype event =
    AllowOrigins "jstring list option"
  | PostMessage int jsval jsval jsval
  | RegisterHandler jsval "handler option"
  | OnMessage "callback option"
  | RespondToMessage int jsval jsval jsval jsval
  | Message int jstring jsval
  | Timeout nat
  | Settle int nat

fun step :: "host \<Rightarrow> event \<Rightarrow> state \<Rightarrow> state" where
  "step h (AllowOrigins l) s = snd (allowOrigins l s)"
| "step h (PostMessage now m targetOrigin requiresResponse) s =
     snd (postMessage h now m targetOrigin requiresResponse s)"
| "step h (RegisterHandler type f) s = snd (registerHandler h type f s)"
| "step h (OnMessage cb) s = snd (onMessage cb s)"
| "step h (RespondToMessage now messageId responseData targetOrigin status) s =
     snd (respondToMessage h now messageId responseData targetOrigin status s)"
| "step h (Message now origin data) s = listener h now origin data s"
| "step h (Timeout tid) s = fire_timeout tid s"
| "step h (Settle now n) s = run_job h now n s"

fun run :: "host \<Rightarrow> event list \<Rightarrow> state \<Rightarrow> state" where
  "run h [] s = s"
| "run h (e # es) s = run h es (step h e s)"

section \<open>Notions used in the statements and proofs\<close>

text \<open>
  The reading of a wildcard pattern in which only the star is special: the origin is
  the pattern with each star replaced by some string, possibly empty, and every other
  character of the pattern stands for itself.
\<close>

fun glob_match :: "jstring \<Rightarrow> jstring \<Rightarrow> bool" where
  "glob_match [] s = (s = [])"
| "glob_match (c # p) s =
     (if c = star then list_ex (\<lambda>k. glob_match p (drop k s)) [0..<Suc (length s)]
      else (case s of [] \<Rightarrow> False | x # xs \<Rightarrow> x = c \<and> glob_match p xs))"

text \<open>The calls made so far of the continuations of promise \<open>p\<close>.\<close>

definition calls_of :: "nat \<Rightarrow> state \<Rightarrow> (nat \<times> settled) list" where
  "calls_of p s = filter (\<lambda>c. fst c = p) (continuations s)"

text \<open>
  The invariant of the correlation table: every entry belongs to a promise, under that
  promise's message id, and names a timer id that has been handed out; two entries
  name different timers; every scheduled timer belongs to the entry that names it;
  message ids are the generated ones, pairwise different.
\<close>

definition tinv :: "host \<Rightarrow> state \<Rightarrow> bool" where
  "tinv h s \<longleftrightarrow>
     (\<forall>k e. pendingResponses s k = Some e \<longrightarrow>
        p_promise e < length (promises s) \<and> pr_messageId (promises s ! p_promise e) = k \<and>
        p_timeoutId e < nextTimer s) \<and>
     (\<forall>k e k' e'. pendingResponses s k = Some e \<and> pendingResponses s k' = Some e' \<and>
        p_timeoutId e = p_timeoutId e' \<longrightarrow> k = k') \<and>
     (\<forall>tid t. timers s tid = Some t \<longrightarrow>
        pendingResponses s (t_messageId t) = Some \<lparr>p_promise = t_promise t, p_timeoutId = tid\<rparr>) \<and>
     (\<forall>p < length (promises s).
        \<exists>now n. n \<le> messageCounter s \<and> pr_messageId (promises s ! p) = message_id h now n) \<and>
     distinct (map pr_messageId (promises s))"

text \<open>
  Two states with the same correlation table, timers, promises and record of
  continuation calls, the second with a counter at least as large; and the same with
  the same allowlist.
\<close>

definition same_table :: "state \<Rightarrow> state \<Rightarrow> bool" where
  "same_table s s' \<longleftrightarrow>
     pendingResponses s' = pendingResponses s \<and> timers s' = timers s \<and>
     nextTimer s' = nextTimer s \<and> promises s' = promises s \<and>
     continuations s' = continuations s \<and> messageCounter s \<le> messageCounter s'"

definition same_correlation :: "state \<Rightarrow> state \<Rightarrow> bool" where
  "same_correlation s s' \<longleftrightarrow>
     pendingResponses s' = pendingResponses s \<and> timers s' = timers s \<and>
     nextTimer s' = nextTimer s \<and> promises s' = promises s \<and>
     continuations s' = continuations s \<and> messageCounter s \<le> messageCounter s' \<and>
     allowedOrigins s' = allowedOrigins s"

text \<open>The number a string of decimal digits spells.\<close>

definition digit_value :: "jstring \<Rightarrow> nat" where
  "digit_value cs = foldl (\<lambda>a c. 10 * a + (unat c - 48)) 0 cs"

text \<open>
  The id the next call of \<^verbatim>\<open>_generateMessageId\<close> returns; the state of
  \<^verbatim>\<open>postMessage\<close> once the id is drawn and the envelope built and logged; and the
  state in which the entry, its timer and the promise are recorded, which is the one
  the transport call of a request starts from.
\<close>

definition next_id :: "host \<Rightarrow> int \<Rightarrow> state \<Rightarrow> jstring" where
  "next_id h now s = message_id h now (Suc (messageCounter s))"

definition announced :: "host \<Rightarrow> int \<Rightarrow> jsval \<Rightarrow> jsval \<Rightarrow> jsval \<Rightarrow> state \<Rightarrow> state" where
  "announced h now m targetOrigin requiresResponse s =
     console_debug
       (Log_sending (next_id h now s) targetOrigin
          (envelope h now (next_id h now s) targetOrigin m requiresResponse))
       (s\<lparr>messageCounter := Suc (messageCounter s)\<rparr>)"

definition registered :: "host \<Rightarrow> int \<Rightarrow> jsval \<Rightarrow> jsval \<Rightarrow> jsval \<Rightarrow> state \<Rightarrow> state" where
  "registered h now m targetOrigin requiresResponse s =
     snd (register_pending (next_id h now s) (announced h now m targetOrigin requiresResponse s))"

text \<open>
  The four ways a step changes the correlation table, as relations between the state
  before and the state after. A request is registered: a promise, a timer and an entry
  are added under the next id (the promise is unsettled, or rejected by the executor).
  A timer expires: it leaves the schedule and the entry of its message leaves the
  table. A response fulfils: the timer of the entry it names is cleared, the promise
  of that entry is resolved with the payload and the entry leaves the table. A
  response stalls: the timer of the entry it names is cleared and nothing else
  changes.
\<close>

definition registers :: "host \<Rightarrow> int \<Rightarrow> state \<Rightarrow> state \<Rightarrow> bool" where
  "registers h now s s' \<longleftrightarrow>
     (\<exists>st. promises s' = promises s @ [\<lparr>pr_messageId = next_id h now s, pr_state = st\<rparr>]) \<and>
     timers s' = (timers s)(nextTimer s \<mapsto>
        \<lparr>t_messageId = next_id h now s, t_promise = length (promises s),
         t_delay = messageTimeout s\<rparr>) \<and>
     nextTimer s' = Suc (nextTimer s) \<and>
     pendingResponses s' = (pendingResponses s)(next_id h now s \<mapsto>
        \<lparr>p_promise = length (promises s), p_timeoutId = nextTimer s\<rparr>) \<and>
     continuations s' = continuations s \<and>
     messageCounter s' = Suc (messageCounter s) \<and>
     allowedOrigins s' = allowedOrigins s"

definition expires :: "nat \<Rightarrow> timer \<Rightarrow> state \<Rightarrow> state \<Rightarrow> bool" where
  "expires tid t s s' \<longleftrightarrow>
     timers s tid = Some t \<and>
     timers s' = (timers s)(tid := None) \<and>
     pendingResponses s' = (pendingResponses s)(t_messageId t := None) \<and>
     nextTimer s' = nextTimer s \<and> promises s' = promises s \<and>
     continuations s' = continuations s \<and> messageCounter s' = messageCounter s \<and>
     allowedOrigins s' = allowedOrigins s"

definition fulfils :: "jstring \<Rightarrow> pending \<Rightarrow> jsval \<Rightarrow> state \<Rightarrow> state \<Rightarrow> bool" where
  "fulfils k en v s s' \<longleftrightarrow>
     pendingResponses s k = Some en \<and>
     timers s' = (timers s)(p_timeoutId en := None) \<and>
     pendingResponses s' = (pendingResponses s)(k := None) \<and>
     nextTimer s' = nextTimer s \<and>
     promises s' = settled_promises (p_promise en) (Fulfilled v) (promises s) \<and>
     continuations s' = continuations s @ [(p_promise en, Fulfilled v)] \<and>
     messageCounter s' = messageCounter s \<and>
     allowedOrigins s' = allowedOrigins s"

definition stalls :: "jstring \<Rightarrow> pending \<Rightarrow> state \<Rightarrow> state \<Rightarrow> bool" where
  "stalls k en s s' \<longleftrightarrow>
     pendingResponses s k = Some en \<and>
     timers s' = (timers s)(p_timeoutId en := None) \<and>
     pendingResponses s' = pendingResponses s \<and>
     nextTimer s' = nextTimer s \<and> promises s' = promises s \<and>
     continuations s' = continuations s \<and> messageCounter s' = messageCounter s \<and>
     allowedOrigins s' = allowedOrigins s"

text \<open>
  A request that can still be answered: promise \<open>p\<close> stands for message \<open>mid\<close>, and
  as long as no continuation of \<open>p\<close> has been called the promise is unsettled and the
  table holds its entry, with timer \<open>tid\<close>. A request that is given up: the promise is
  unsettled, none of its continuations has been called, and its entry is gone.
\<close>

definition open_request :: "state \<Rightarrow> nat \<Rightarrow> jstring \<Rightarrow> nat \<Rightarrow> bool" where
  "open_request s p mid tid \<longleftrightarrow>
     p < length (promises s) \<and> pr_messageId (promises s ! p) = mid \<and>
     (calls_of p s = [] \<longrightarrow>
        pr_state (promises s ! p) = None \<and>
        pendingResponses s mid = Some \<lparr>p_promise = p, p_timeoutId = tid\<rparr>)"

definition given_up :: "state \<Rightarrow> nat \<Rightarrow> bool" where
  "given_up s p \<longleftrightarrow>
     p < length (promises s) \<and> pr_state (promises s ! p) = None \<and> calls_of p s = [] \<and>
     pendingResponses s (pr_messageId (promises s ! p)) = None"

text \<open>
  The error response the bridge builds for message \<open>m\<close> and failure \<open>error\<close>, under
  the response's own id \<open>i\<close>.
\<close>

definition error_reply :: "host \<Rightarrow> int \<Rightarrow> jstring \<Rightarrow> jsval \<Rightarrow> jsval \<Rightarrow> jsval" where
  "error_reply h now i m error =
     JObj [(js ''id'', JStr i),
           (js ''responseToId'', get_field m (js ''id'')),
           (js ''timestamp'', JNum (Fin now)),
           (js ''source'', JStr (location_origin h)),
           (js ''payload'',
              JObj [(js ''message'', get_field error (js ''message'')),
                    (js ''details'', js_or (get_field error (js ''details'')) (JObj []))]),
           (js ''isResponse'', JBool True),
           (js ''status'', JStr (js ''error''))]"

section \<open>Examples\<close>

text \<open>
  A host, and a bridge that trusts \<^verbatim>\<open>https://a.test\<close> and keeps the defaults
  otherwise.
\<close>

definition example_host :: host where
  "example_host =
     \<lparr>location_origin = js ''https://app.test'',
      random_suffix = (\<lambda>n. js ''k3x9''),
      string_number = (\<lambda>s. NaN),
      big_number_text = (\<lambda>n. js ''1e+21''),
      inherited_call = (\<lambda>k payload meta. Returns payload),
      function_member = (\<lambda>g k. Inr None),
      other_regexp = (\<lambda>body s. None),
      transport_refusal = (\<lambda>t. None),
      exception_message = (\<lambda>x. js ''failed'')\<rparr>"

definition example_options :: options where
  "example_options =
     \<lparr>o_allowedOrigins = Some [js ''https://a.test''], o_messageTimeout = None,
      o_maxMessageSize = None, o_debug = None\<rparr>"

text \<open>
  A request, its target, and the replies a peer at \<^verbatim>\<open>https://a.test\<close> gives to a
  request: one with a result, one with status error. \<open>pong\<close> and \<open>pang\<close> are these
  replies to the first request of the example bridge.
\<close>

definition ping :: jsval where
  "ping = JObj [(js ''type'', JStr (js ''ping''))]"

definition target :: jsval where
  "target = JStr (js ''https://a.test'')"

definition reply_to :: "jsval \<Rightarrow> jsval" where
  "reply_to request =
     JObj [(js ''id'', JStr (js ''r1'')),
           (js ''responseToId'', get_field request (js ''id'')),
           (js ''timestamp'', JNum (Fin 1001)),
           (js ''source'', JStr (js ''https://a.test'')),
           (js ''payload'', JObj [(js ''pong'', JBool True)]),
           (js ''isResponse'', JBool True),
           (js ''status'', JStr (js ''success''))]"

definition pong :: jsval where
  "pong = reply_to (JObj [(js ''id'', JStr (js ''msg_1000_1_k3x9''))])"

definition pang :: jsval where
  "pang =
     JObj [(js ''id'', JStr (js ''r2'')),
           (js ''responseToId'', JStr (js ''msg_1000_1_k3x9'')),
           (js ''timestamp'', JNum (Fin 1001)),
           (js ''source'', JStr (js ''https://a.test'')),
           (js ''payload'', JObj [(js ''message'', JStr (js ''no''))]),
           (js ''isResponse'', JBool True),
           (js ''status'', JStr (js ''error''))]"

text \<open>
  A transport that delivers the reply to the listener before it returns, as a peer in
  the same process could.
\<close>

definition loopback :: "jsval \<Rightarrow> jsval \<Rightarrow> state \<Rightarrow> fault option \<times> state" where
  "loopback request targetOrigin s =
     (None, listener example_host 1001 (js ''https://a.test'') (reply_to request) s)"

text \<open>The example bridge with one request sent and nothing received.\<close>

definition awaiting_reply :: state where
  "awaiting_reply =
     run example_host [PostMessage 1000 ping target (JBool True)] (constructor example_options)"

text \<open>
  A payload with one character outside ASCII, and a message whose timestamp is not a
  number.
\<close>

definition cjk_payload :: jsval where
  "cjk_payload = JObj [(js ''a'', JStr [0x4E2D])]"

definition undated_message :: jsval where
  "undated_message =
     JObj [(js ''id'', JStr (js ''m1'')),
           (js ''timestamp'', JObj []),
           (js ''source'', JStr (js ''https://a.test'')),
           (js ''payload'', JObj [(js ''type'', JStr (js ''ping''))])]"

text \<open>
  An inbound request for the type \<^verbatim>\<open>ping\<close>, a failure value, and the example bridge
  with a handler registered for that type.
\<close>

definition boom :: jsval where
  "boom = JObj [(js ''message'', JStr (js ''boom'')), (js ''details'', JObj [(js ''code'', JNum (Fin 7))])]"

definition ping_request :: "jsval \<Rightarrow> jsval" where
  "ping_request requiresResponse =
     JObj [(js ''id'', JStr (js ''q1'')),
           (js ''timestamp'', JNum (Fin 1000)),
           (js ''source'', JStr (js ''https://a.test'')),
           (js ''payload'', ping),
           (js ''requiresResponse'', requiresResponse)]"

definition with_handler :: "handler \<Rightarrow> state" where
  "with_handler f =
     snd (registerHandler example_host (JStr (js ''ping'')) (Some f) (constructor example_options))"

section \<open>Properties\<close>

subsection \<open>Unfolding the definitions on concrete inputs\<close>

text \<open>
  The equations that let the simplifier run the model on the examples: the values and
  the serialisation, then sending and receiving, then dispatch.
\<close>

lemmas json_eval = js_def quote_json_def is_high_surrogate_def is_low_surrogate_def
  unicode_escape_def hex_digit_def dec_int_def dec_nat.simps

lemmas send_eval = js_def quote_json_def is_high_surrogate_def is_low_surrogate_def
  unicode_escape_def hex_digit_def dec_int_def dec_nat.simps
  constructor_def example_options_def example_host_def or_default_def
  message_id_def next_id_def announced_def console_debug_def template_debug_def
  window_parent_postMessage_def transport_check_def
  register_pending_def new_promise_def setTimeout_def clearTimeout_def settle_def
  settled_promises_def executor_end_def envelope_def js_or_def
  listener_def isOriginAllowed_def star_def dot_def validateMessage_def handle_response_def
  property_key_def js_lookup_def object_prototype_keys_def Let_def

lemmas run_eval = send_eval postMessage_def postMessage_via_def generateMessageId_def
  fire_timeout_def calls_of_def ping_def target_def

lemmas dispatch_eval = run_eval ping_request_def with_handler_def boom_def registerHandler_def
  dispatch_def find_handler_def handler_meta_def on_throw_def respond_error_def
  respondToMessage_def run_job_def error_reply_def exception_object_def

subsection \<open>Origin policy\<close>

lemma some_allowed_no_star:
  "\<forall>p \<in> set allowed. star \<notin> set p \<Longrightarrow> origin \<notin> set allowed
   \<Longrightarrow> some_allowed h allowed origin = Inr False"
  by (induction allowed) auto

lemma isOriginAllowed_empty: "isOriginAllowed h [] origin = Inr False"
  by (simp add: isOriginAllowed_def)

lemma isOriginAllowed_no_star:
  assumes "\<forall>p \<in> set allowed. star \<notin> set p" and "origin \<notin> set allowed"
  shows "isOriginAllowed h allowed origin = Inr False"
proof -
  have "[star] \<notin> set allowed"
    using assms(1) by auto
  then show ?thesis
    using some_allowed_no_star [OF assms] by (simp add: isOriginAllowed_def)
qed

lemma some_allowed_append:
  "some_allowed h xs origin = Inr True \<Longrightarrow> some_allowed h (xs @ ys) origin = Inr True"
  by (induction xs) (auto split: option.splits bool.splits if_splits)

lemma isOriginAllowed_append:
  assumes "isOriginAllowed h xs origin = Inr True"
  shows "isOriginAllowed h (xs @ ys) origin = Inr True"
proof -
  from assms have ne: "xs \<noteq> []"
    by (auto simp: isOriginAllowed_def)
  show ?thesis
  proof (cases "[star] \<in> set xs")
    case True
    with ne show ?thesis by (simp add: isOriginAllowed_def)
  next
    case False
    with assms ne have "some_allowed h xs origin = Inr True"
      by (simp add: isOriginAllowed_def)
    then have "some_allowed h (xs @ ys) origin = Inr True"
      by (rule some_allowed_append)
    with ne show ?thesis by (simp add: isOriginAllowed_def)
  qed
qed

lemma listener_unauthorized:
  "isOriginAllowed h (allowedOrigins s) origin = Inr False \<Longrightarrow>
   listener h now origin data s = console_debug (Warn_unauthorized origin) s"
  by (simp add: listener_def)

text \<open>
  C3. The origin policy fails closed. With an empty allowlist every origin is refused.
  With an allowlist none of whose patterns holds a star, every origin that is not an
  element of the list is refused. A message from a refused origin leaves the listener
  before anything else happens: no handler or callback is called, nothing is sent or
  queued, no continuation is called, the table, the promises and the faults are as
  they were (the console gets a warning in debug mode).
\<close>

theorem origin_policy_fails_closed:
  "isOriginAllowed h [] origin = Inr False \<and>
   ((\<forall>p \<in> set allowed. star \<notin> set p) \<and> origin \<notin> set allowed
      \<longrightarrow> isOriginAllowed h allowed origin = Inr False) \<and>
   (isOriginAllowed h (allowedOrigins s) origin = Inr False \<longrightarrow>
      dispatched (listener h now origin data s) = dispatched s \<and>
      sent (listener h now origin data s) = sent s \<and>
      jobs (listener h now origin data s) = jobs s \<and>
      continuations (listener h now origin data s) = continuations s \<and>
      pendingResponses (listener h now origin data s) = pendingResponses s \<and>
      promises (listener h now origin data s) = promises s \<and>
      faults (listener h now origin data s) = faults s)"
  by (simp add: isOriginAllowed_empty isOriginAllowed_no_star listener_unauthorized
      console_debug_def)

theorem origin_policy_fails_closed_witness:
  "star \<notin> set (js ''https://a.test'') \<and>
   js ''https://b.test'' \<notin> set [js ''https://a.test''] \<and>
   isOriginAllowed example_host [js ''https://a.test''] (js ''https://b.test'') = Inr False \<and>
   isOriginAllowed example_host (allowedOrigins (with_handler (\<lambda>payload meta. Returns JNull)))
     (js ''https://b.test'') = Inr False \<and>
   dispatched (with_handler (\<lambda>payload meta. Returns JNull)) = [] \<and>
   dispatched (listener example_host 1000 (js ''https://b.test'') (ping_request (JBool True))
                 (with_handler (\<lambda>payload meta. Returns JNull))) = [] \<and>
   dispatched (listener example_host 1000 (js ''https://a.test'') (ping_request (JBool True))
                 (with_handler (\<lambda>payload meta. Returns JNull)))
     = [(ping, handler_meta (ping_request (JBool True)))]"
proof -
  let ?s = "with_handler (\<lambda>payload meta. Returns JNull)"
  have a: "star \<notin> set (js ''https://a.test'')"
    "js ''https://b.test'' \<notin> set [js ''https://a.test'']"
    by (simp_all add: js_def star_def)
  have o: "allowedOrigins ?s = [js ''https://a.test'']"
    by (simp add: dispatch_eval)
  have d: "dispatched ?s = []"
    by (simp add: dispatch_eval)
  have r: "dispatched (listener example_host 1000 (js ''https://a.test'') (ping_request (JBool True)) ?s)
     = [(ping, handler_meta (ping_request (JBool True)))]"
    by (simp add: dispatch_eval)
  have "isOriginAllowed example_host [js ''https://a.test''] (js ''https://b.test'') = Inr False \<and>
        isOriginAllowed example_host (allowedOrigins ?s) (js ''https://b.test'') = Inr False \<and>
        dispatched (listener example_host 1000 (js ''https://b.test'') (ping_request (JBool True)) ?s)
          = dispatched ?s"
    using origin_policy_fails_closed [where h = example_host and origin = "js ''https://b.test''"
        and allowed = "[js ''https://a.test'']" and s = ?s
        and now = 1000 and data = "ping_request (JBool True)"] a
    by (simp add: o)
  with a d r show ?thesis
    by simp
qed

text \<open>
  C4. Only the star is rewritten when a pattern is turned into a regular expression,
  so a dot of the pattern is the regular expression's dot and stands for any
  character. The origin \<^verbatim>\<open>https://evil-example.com\<close> is accepted under the pattern
  \<^verbatim>\<open>https://*.example.com\<close>, although it is not the pattern with its star replaced
  by a string.
\<close>

theorem pattern_dot_matches_any_character:
  "isOriginAllowed example_host [js ''https://*.example.com''] (js ''https://evil-example.com'') = Inr True \<and>
   \<not> glob_match (js ''https://*.example.com'') (js ''https://evil-example.com'')"
  by (simp add: js_def star_def dot_def regexp_test_def isOriginAllowed_def
      re_syntax_chars_def line_terminator_def)

subsection \<open>Message size and validation\<close>

text \<open>
  C5. \<^verbatim>\<open>postMessage\<close> measures \<^verbatim>\<open>JSON.stringify(message).length\<close>, the number of UTF-16
  code units of the JSON text, which the text of its error calls bytes. The JSON text of
  \<^verbatim>\<open>{"a":"\<close>U+4E2D\<^verbatim>\<open>"}\<close> has 9 code units and 11 bytes in UTF-8; with a limit of 9 the
  message is accepted and handed to the transport.
\<close>

theorem size_check_counts_code_units:
  "length (JSON_stringify example_host cjk_payload) = 9 \<and>
   utf8_byte_length (JSON_stringify example_host cjk_payload) = 11 \<and>
   fst (postMessage example_host 1000 cjk_payload (JStr (js ''https://a.test'')) JUndefined
          ((constructor example_options)\<lparr>maxMessageSize := 9\<rparr>))
     = Inr (Sent_immediately (JObj [(js ''sent'', JBool True),
                                    (js ''id'', JStr (js ''msg_1000_1_k3x9''))])) \<and>
   length (sent (snd (postMessage example_host 1000 cjk_payload (JStr (js ''https://a.test''))
                        JUndefined ((constructor example_options)\<lparr>maxMessageSize := 9\<rparr>)))) = 1"
  by (simp add: cjk_payload_def json_eval postMessage_def postMessage_via_def Let_def
      constructor_def example_options_def example_host_def generateMessageId_def message_id_def
      console_debug_def template_debug_def window_parent_postMessage_def transport_check_def
      or_default_def)

text \<open>
  The boundary on code units: a message as long as the limit passes the size check and
  draws an id; a message one unit longer is refused there, with the state untouched.
  The refusal is the \<open>ReferenceError\<close> of the unbound \<^verbatim>\<open>UniCanvasError\<close>.
\<close>

lemma size_check_boundary:
  assumes "truthy m" and "typeof_object m" and "truthy targetOrigin"
  shows "(int (length (JSON_stringify h m)) = maxMessageSize s \<longrightarrow>
            messageCounter (snd (postMessage h now m targetOrigin rr s)) = Suc (messageCounter s)) \<and>
         (int (length (JSON_stringify h m)) = maxMessageSize s + 1 \<longrightarrow>
            postMessage h now m targetOrigin rr s = (Inl ReferenceError, s))"
  using assms
  by (auto simp: postMessage_def postMessage_via_def Let_def split_beta generateMessageId_def
      template_debug_def console_debug_def window_parent_postMessage_def executor_end_def
      register_pending_def new_promise_def setTimeout_def
      split: sum.splits option.splits)

text \<open>
  C6. A message whose timestamp is an object passes \<^verbatim>\<open>_validateMessage\<close> at every
  time: the age is NaN, and both comparisons with NaN are false. Sent from an allowed
  origin it reaches the handler registered for its type.
\<close>

theorem timestamp_not_a_number_passes:
  "validateMessage h now undated_message = Inr True \<and>
   to_number h (get_field undated_message (js ''timestamp'')) = Inr NaN \<and>
   num_sub (Fin now) NaN = NaN \<and>
   dispatched
     (listener h now (js ''https://a.test'') undated_message
        (snd (registerHandler h (JStr (js ''ping'')) (Some (\<lambda>payload meta. Returns JNull))
                (constructor example_options))))
     = [(JObj [(js ''type'', JStr (js ''ping''))], handler_meta undated_message)]"
  by (simp add: validateMessage_def undated_message_def js_def listener_def isOriginAllowed_def
      star_def constructor_def example_options_def registerHandler_def console_debug_def
      template_debug_def property_key_def dispatch_def find_handler_def Let_def)

theorem timestamp_not_a_number_passes_witness:
  "validateMessage example_host 1700000000000 undated_message = Inr True \<and>
   validateMessage example_host 1800000000000 undated_message = Inr True"
  using timestamp_not_a_number_passes [of example_host 1700000000000]
    timestamp_not_a_number_passes [of example_host 1800000000000]
  by simp

subsection \<open>Message ids\<close>

lemma unat_digit: "n < 10 \<Longrightarrow> unat (48 + of_nat n :: 16 word) = 48 + n"
proof -
  assume n: "n < 10"
  have "(48 + of_nat n :: 16 word) = of_nat (48 + n)"
    by simp
  then have "unat (48 + of_nat n :: 16 word) = (48 + n) mod 2 ^ 16"
    by (simp only: unat_of_nat len_of_numeral_defs) simp
  with n show ?thesis by simp
qed

lemma digit_value_dec_nat: "digit_value (dec_nat n) = n"
proof (induction n rule: dec_nat.induct)
  case (1 n)
  show ?case
  proof (cases "n < 10")
    case True
    then show ?thesis
      by (subst dec_nat.simps) (simp add: digit_value_def unat_digit)
  next
    case False
    then have ih: "digit_value (dec_nat (n div 10)) = n div 10"
      using "1.IH" by simp
    have lt: "n mod 10 < 10" by simp
    have "digit_value (dec_nat n) = 10 * digit_value (dec_nat (n div 10)) + n mod 10"
      using False by (subst dec_nat.simps) (simp add: digit_value_def unat_digit [OF lt])
    with ih show ?thesis by simp
  qed
qed

lemma dec_nat_inj: "dec_nat m = dec_nat n \<Longrightarrow> m = n"
  by (metis digit_value_dec_nat)

lemma dec_nat_no_underscore: "95 \<notin> set (dec_nat n)"
proof (induction n rule: dec_nat.induct)
  case (1 n)
  show ?case
  proof (cases "n < 10")
    case True
    then have "unat (48 + of_nat n :: 16 word) \<noteq> unat (95 :: 16 word)"
      by (simp add: unat_digit)
    then have "(48 + of_nat n :: 16 word) \<noteq> 95" by metis
    with True show ?thesis
      by (subst dec_nat.simps) simp
  next
    case False
    have lt: "n mod 10 < 10" by simp
    have "unat (48 + of_nat (n mod 10) :: 16 word) \<noteq> unat (95 :: 16 word)"
      by (simp add: unat_digit [OF lt])
    then have "(48 + of_nat (n mod 10) :: 16 word) \<noteq> 95" by metis
    with False "1.IH" show ?thesis
      by (subst dec_nat.simps) simp
  qed
qed

lemma dec_int_no_underscore: "95 \<notin> set (dec_int i)"
  by (simp add: dec_int_def dec_nat_no_underscore)

lemma split_at_separator:
  "u \<notin> set xs \<Longrightarrow> u \<notin> set xs' \<Longrightarrow> xs @ u # ys = xs' @ u # ys' \<Longrightarrow> xs = xs' \<and> ys = ys'"
proof (induction xs arbitrary: xs')
  case Nil
  then show ?case by (cases xs') auto
next
  case (Cons x xs)
  then show ?case by (cases xs') auto
qed

lemma message_id_counter:
  assumes "message_id h now n = message_id h now' n'"
  shows "n = n'"
proof -
  have u: "js ''_'' = [95]" by (simp add: js_def)
  from assms have
    "dec_int now @ 95 # (dec_nat n @ 95 # random_suffix h n)
     = dec_int now' @ 95 # (dec_nat n' @ 95 # random_suffix h n')"
    by (simp add: message_id_def u)
  then have "dec_nat n @ 95 # random_suffix h n = dec_nat n' @ 95 # random_suffix h n'"
    using split_at_separator [OF dec_int_no_underscore dec_int_no_underscore] by blast
  then have "dec_nat n = dec_nat n'"
    using split_at_separator [OF dec_nat_no_underscore dec_nat_no_underscore] by blast
  then show ?thesis by (rule dec_nat_inj)
qed

lemma message_id_not_inherited: "message_id h now n \<notin> set object_prototype_keys"
  by (auto simp add: message_id_def object_prototype_keys_def js_def)

lemma message_id_truthy: "truthy (JStr (message_id h now n))"
  by (simp add: message_id_def js_def)

subsection \<open>What leaves the correlation table alone\<close>

lemma same_correlation_refl: "same_correlation s s"
  by (simp add: same_correlation_def)

lemma same_correlation_trans:
  "same_correlation s s' \<Longrightarrow> same_correlation s' s'' \<Longrightarrow> same_correlation s s''"
  by (simp add: same_correlation_def)

lemma same_upd:
  assumes "same_correlation s s'"
  shows "same_correlation s (s'\<lparr>jobs := j\<rparr>)"
    and "same_correlation s (s'\<lparr>dispatched := d\<rparr>)"
    and "same_correlation s (s'\<lparr>console := c\<rparr>)"
    and "same_correlation s (s'\<lparr>sent := x\<rparr>)"
    and "same_correlation s (s'\<lparr>faults := f\<rparr>)"
    and "same_correlation s (s'\<lparr>messageHandlers := mh\<rparr>)"
    and "same_correlation s (s'\<lparr>handlersPrototype := hp\<rparr>)"
    and "same_correlation s (s'\<lparr>globalMessageCallback := cb\<rparr>)"
  using assms by (simp_all add: same_correlation_def)

lemma same_console_debug:
  "same_correlation s s' \<Longrightarrow> same_correlation s (console_debug e s')"
  by (simp add: console_debug_def same_upd)

lemma same_generate:
  "same_correlation s s' \<Longrightarrow> same_correlation s (snd (generateMessageId h now s'))"
  by (simp add: generateMessageId_def Let_def same_correlation_def)

lemma same_window_parent_postMessage:
  "same_correlation s s' \<Longrightarrow> same_correlation s (snd (window_parent_postMessage h m t s'))"
  by (simp add: window_parent_postMessage_def same_upd split: option.splits)

lemma same_respondToMessage:
  assumes "same_correlation s s'"
  shows "same_correlation s (snd (respondToMessage h now messageId responseData targetOrigin status s'))"
proof -
  let ?s1 = "snd (generateMessageId h now s')"
  have 1: "same_correlation s ?s1"
    using assms by (rule same_generate)
  have 2: "\<And>e. same_correlation s (console_debug e ?s1)"
    using 1 by (rule same_console_debug)
  have 3: "\<And>e m t. same_correlation s (snd (window_parent_postMessage h m t (console_debug e ?s1)))"
    using 2 by (rule same_window_parent_postMessage)
  show ?thesis
    using assms 1 3
    by (simp add: respondToMessage_def template_debug_def Let_def split_beta
        split: sum.splits option.splits prod.splits)
qed

lemma same_respond_error:
  assumes "same_correlation s s'"
  shows "same_correlation s (respond_error h now m error s')"
proof (cases "error = JUndefined \<or> error = JNull")
  case True
  then show ?thesis
    using assms by (auto simp: respond_error_def same_upd)
next
  case False
  let ?r = "respondToMessage h now (get_field m (js ''id''))
              (JObj [(js ''message'', get_field error (js ''message'')),
                     (js ''details'', js_or (get_field error (js ''details'')) (JObj []))])
              (get_field m (js ''source'')) (JStr (js ''error'')) s'"
  have "same_correlation s (snd ?r)"
    using assms by (rule same_respondToMessage)
  then show ?thesis
    using False by (cases ?r) (auto simp: respond_error_def same_upd split: sum.splits)
qed

lemma same_on_throw:
  "same_correlation s s' \<Longrightarrow> same_correlation s (on_throw h now m error s')"
  by (simp add: on_throw_def Let_def same_respond_error same_upd)

lemma same_run_callback:
  "same_correlation s s' \<Longrightarrow> same_correlation s (snd (run_callback h now m c s'))"
proof (induction c arbitrary: s')
  case Return
  then show ?case by simp
next
  case (Throw error)
  then show ?case by simp
next
  case (Respond responseData returned thrown)
  let ?r = "respondToMessage h now (get_field m (js ''id'')) responseData
              (get_field m (js ''source'')) JUndefined s'"
  have r: "same_correlation s (snd ?r)"
    using Respond.prems by (rule same_respondToMessage)
  show ?case
  proof (cases "truthy (get_field m (js ''requiresResponse''))")
    case False
    then show ?thesis
      using Respond.IH(1) [OF Respond.prems] by simp
  next
    case True
    then show ?thesis
      using Respond.IH(1) [OF r] Respond.IH(2) [OF r]
      by (cases ?r) (auto split: sum.splits)
  qed
qed

lemma same_dispatch:
  assumes "same_correlation s s'"
  shows "same_correlation s (dispatch h now m s')"
proof -
  let ?p = "get_field m (js ''payload'')"
  let ?s1 = "s'\<lparr>dispatched := dispatched s' @ [(?p, handler_meta m)]\<rparr>"
  have 1: "same_correlation s ?s1"
    using assms by (rule same_upd)
  have cb: "\<And>c. same_correlation s (snd (run_callback h now m c ?s1))"
    using 1 by (rule same_run_callback)
  have th: "\<And>c error. same_correlation s (on_throw h now m error (snd (run_callback h now m c ?s1)))"
    using cb by (rule same_on_throw)
  show ?thesis
    using assms 1 cb th
    by (simp add: dispatch_def Let_def same_on_throw same_upd split_beta
        split: option.split outcome.split sum.split)
qed

lemma same_run_job:
  assumes "same_correlation s s'"
  shows "same_correlation s (run_job h now n s')"
proof (cases "n < length (jobs s')")
  case False
  then show ?thesis using assms by (simp add: run_job_def)
next
  case True
  let ?j = "jobs s' ! n"
  let ?s1 = "s'\<lparr>jobs := take n (jobs s') @ drop (Suc n) (jobs s')\<rparr>"
  have 1: "same_correlation s ?s1"
    using assms by (rule same_upd)
  show ?thesis
  proof (cases "j_result ?j")
    case (Rejects error)
    then show ?thesis
      using True same_respond_error [OF 1] by (simp add: run_job_def Let_def)
  next
    case (Fulfils responseData)
    let ?r = "respondToMessage h now (get_field (j_message ?j) (js ''id'')) responseData
                (get_field (j_message ?j) (js ''source'')) JUndefined ?s1"
    have r: "same_correlation s (snd ?r)"
      using 1 by (rule same_respondToMessage)
    show ?thesis
      using True Fulfils r same_respond_error [OF r]
      by (cases ?r) (auto simp: run_job_def Let_def split: sum.splits)
  qed
qed

lemma same_registerHandler:
  "same_correlation s s' \<Longrightarrow> same_correlation s (snd (registerHandler h type f s'))"
  by (simp add: registerHandler_def same_correlation_def console_debug_def
      split: option.splits sum.splits)

lemma same_onMessage:
  "same_correlation s s' \<Longrightarrow> same_correlation s (snd (onMessage cb s'))"
  by (simp add: onMessage_def same_correlation_def console_debug_def split: option.splits)

subsection \<open>How a step changes the correlation table\<close>

lemma console_debug_fields:
  "pendingResponses (console_debug e s) = pendingResponses s"
  "promises (console_debug e s) = promises s"
  "timers (console_debug e s) = timers s"
  "nextTimer (console_debug e s) = nextTimer s"
  "continuations (console_debug e s) = continuations s"
  "messageCounter (console_debug e s) = messageCounter s"
  "faults (console_debug e s) = faults s"
  "sent (console_debug e s) = sent s"
  "jobs (console_debug e s) = jobs s"
  "dispatched (console_debug e s) = dispatched s"
  "allowedOrigins (console_debug e s) = allowedOrigins s"
  "debug (console_debug e s) = debug s"
  "messageTimeout (console_debug e s) = messageTimeout s"
  by (simp_all add: console_debug_def)

lemma register_fields:
  "fst (register_pending mid s) = length (promises s)"
  "promises (snd (register_pending mid s)) = promises s @ [\<lparr>pr_messageId = mid, pr_state = None\<rparr>]"
  "timers (snd (register_pending mid s))
     = (timers s)(nextTimer s \<mapsto> \<lparr>t_messageId = mid, t_promise = length (promises s),
                                  t_delay = messageTimeout s\<rparr>)"
  "nextTimer (snd (register_pending mid s)) = Suc (nextTimer s)"
  "pendingResponses (snd (register_pending mid s))
     = (pendingResponses s)(mid \<mapsto> \<lparr>p_promise = length (promises s), p_timeoutId = nextTimer s\<rparr>)"
  "continuations (snd (register_pending mid s)) = continuations s"
  "messageCounter (snd (register_pending mid s)) = messageCounter s"
  "allowedOrigins (snd (register_pending mid s)) = allowedOrigins s"
  "sent (snd (register_pending mid s)) = sent s"
  by (simp_all add: register_pending_def new_promise_def setTimeout_def Let_def)

lemma announced_fields:
  "promises (announced h now m t rr s) = promises s"
  "timers (announced h now m t rr s) = timers s"
  "nextTimer (announced h now m t rr s) = nextTimer s"
  "pendingResponses (announced h now m t rr s) = pendingResponses s"
  "continuations (announced h now m t rr s) = continuations s"
  "messageTimeout (announced h now m t rr s) = messageTimeout s"
  "sent (announced h now m t rr s) = sent s"
  "messageCounter (announced h now m t rr s) = Suc (messageCounter s)"
  "allowedOrigins (announced h now m t rr s) = allowedOrigins s"
  by (simp_all add: announced_def console_debug_def)

lemma registered_fields:
  "promises (registered h now m t rr s)
     = promises s @ [\<lparr>pr_messageId = next_id h now s, pr_state = None\<rparr>]"
  "timers (registered h now m t rr s)
     = (timers s)(nextTimer s \<mapsto> \<lparr>t_messageId = next_id h now s, t_promise = length (promises s),
                                  t_delay = messageTimeout s\<rparr>)"
  "nextTimer (registered h now m t rr s) = Suc (nextTimer s)"
  "pendingResponses (registered h now m t rr s)
     = (pendingResponses s)(next_id h now s \<mapsto>
          \<lparr>p_promise = length (promises s), p_timeoutId = nextTimer s\<rparr>)"
  "continuations (registered h now m t rr s) = continuations s"
  "messageCounter (registered h now m t rr s) = Suc (messageCounter s)"
  "allowedOrigins (registered h now m t rr s) = allowedOrigins s"
  "sent (registered h now m t rr s) = sent s"
  by (simp_all add: registered_def register_fields announced_fields)

lemma same_announced: "same_correlation s (announced h now m targetOrigin requiresResponse s)"
  by (simp add: announced_def console_debug_def same_correlation_def)

lemma postMessage_via_unfold:
  "postMessage_via tr h now m t rr s =
     (if \<not> truthy m \<or> \<not> typeof_object m \<or> \<not> truthy t
         \<or> maxMessageSize s < int (length (JSON_stringify h m))
      then (Inl ReferenceError, s)
      else
        (case (if debug s then to_string h t else Inr []) of
           Inl x \<Rightarrow> (Inl x, s\<lparr>messageCounter := Suc (messageCounter s)\<rparr>)
         | Inr u \<Rightarrow>
             if truthy rr then
               (Inr (Awaiting (length (promises s))),
                executor_end (length (promises s))
                  (tr (envelope h now (next_id h now s) t m rr) t (registered h now m t rr s)))
             else
               (case tr (envelope h now (next_id h now s) t m rr) t (announced h now m t rr s) of
                  (Some x, s3) \<Rightarrow> (Inl x, s3)
                | (None, s3) \<Rightarrow>
                    (Inr (Sent_immediately
                            (JObj [(js ''sent'', JBool True), (js ''id'', JStr (next_id h now s))])),
                     s3))))"
proof -
  have p: "\<And>e s'. promises (console_debug e s') = promises s'"
    by (simp add: console_debug_def)
  show ?thesis
    by (simp add: postMessage_via_def template_debug_def Let_def generateMessageId_def next_id_def
        announced_def registered_def split_beta register_fields p
        split: sum.splits option.splits)
qed

lemma settled_last:
  "settled_promises (length ps) r (ps @ [\<lparr>pr_messageId = mid, pr_state = None\<rparr>])
     = ps @ [\<lparr>pr_messageId = mid, pr_state = Some r\<rparr>]"
  by (simp add: settled_promises_def)

lemma postMessage_request:
  assumes "truthy m" and "typeof_object m" and "truthy t"
    and "int (length (JSON_stringify h m)) \<le> maxMessageSize s"
    and "debug s \<longrightarrow> (\<exists>u. to_string h t = Inr u)"
    and "truthy rr"
  shows "postMessage h now m t rr s =
           (Inr (Awaiting (length (promises s))),
            executor_end (length (promises s))
              (window_parent_postMessage h (envelope h now (next_id h now s) t m rr) t
                 (registered h now m t rr s)))"
  using assms by (auto simp: postMessage_def postMessage_via_unfold)

lemma registers_request:
  "registers h now s
     (executor_end (length (promises s))
        (window_parent_postMessage h env t (registered h now m t rr s)))"
proof (cases "transport_check h t")
  case None
  then show ?thesis
    by (simp add: registers_def executor_end_def window_parent_postMessage_def registered_fields)
next
  case (Some x)
  then show ?thesis
    by (simp add: registers_def executor_end_def window_parent_postMessage_def registered_fields
        settled_last)
qed

lemma postMessage_cases:
  "same_correlation s (snd (postMessage h now m t rr s))
   \<or> registers h now s (snd (postMessage h now m t rr s))"
proof (cases "truthy m \<and> typeof_object m \<and> truthy t
              \<and> int (length (JSON_stringify h m)) \<le> maxMessageSize s
              \<and> (debug s \<longrightarrow> (\<exists>u. to_string h t = Inr u))")
  case False
  then have "same_correlation s (snd (postMessage h now m t rr s))"
    by (auto simp: postMessage_def postMessage_via_unfold same_correlation_def
        split: sum.splits)
  then show ?thesis by simp
next
  case True
  show ?thesis
  proof (cases "truthy rr")
    case True
    with \<open>truthy m \<and> _\<close> have "postMessage h now m t rr s =
           (Inr (Awaiting (length (promises s))),
            executor_end (length (promises s))
              (window_parent_postMessage h (envelope h now (next_id h now s) t m rr) t
                 (registered h now m t rr s)))"
      by (intro postMessage_request) simp_all
    then show ?thesis
      by (simp add: registers_request)
  next
    case False
    have "same_correlation s
            (snd (window_parent_postMessage h (envelope h now (next_id h now s) t m rr) t
                    (announced h now m t rr s)))"
      using same_announced by (rule same_window_parent_postMessage)
    with False \<open>truthy m \<and> _\<close> have "same_correlation s (snd (postMessage h now m t rr s))"
      by (auto simp: postMessage_def postMessage_via_unfold split: sum.splits prod.splits option.splits)
    then show ?thesis by simp
  qed
qed

lemma handle_response_cases:
  "same_correlation s (handle_response h m s)
   \<or> (\<exists>k en. property_key h (get_field m (js ''responseToId'')) = Inr k
         \<and> get_field m (js ''status'') \<noteq> JStr (js ''error'')
         \<and> fulfils k en (get_field m (js ''payload'')) s (handle_response h m s))
   \<or> (\<exists>k en. property_key h (get_field m (js ''responseToId'')) = Inr k
         \<and> get_field m (js ''status'') = JStr (js ''error'')
         \<and> stalls k en s (handle_response h m s))"
proof (cases "property_key h (get_field m (js ''responseToId''))")
  case (Inl x)
  then have "same_correlation s (handle_response h m s)"
    by (simp add: handle_response_def same_correlation_def)
  then show ?thesis by simp
next
  case (Inr k)
  show ?thesis
  proof (cases "js_lookup (pendingResponses s) k")
    case Absent
    with Inr have "same_correlation s (handle_response h m s)"
      by (simp add: handle_response_def same_correlation_def)
    then show ?thesis by simp
  next
    case Inherited
    with Inr have "same_correlation s (handle_response h m s)"
      by (simp add: handle_response_def same_correlation_def)
    then show ?thesis by simp
  next
    case (Own en)
    then have k: "pendingResponses s k = Some en"
      by (auto simp: js_lookup_def split: option.splits if_splits)
    show ?thesis
    proof (cases "get_field m (js ''status'') = JStr (js ''error'')")
      case True
      with Inr Own k have "stalls k en s (handle_response h m s)"
        by (simp add: handle_response_def stalls_def clearTimeout_def Let_def)
      with Inr True show ?thesis by blast
    next
      case False
      with Inr Own k have "fulfils k en (get_field m (js ''payload'')) s (handle_response h m s)"
        by (simp add: handle_response_def fulfils_def clearTimeout_def settle_def Let_def)
      with Inr False show ?thesis by blast
    qed
  qed
qed

lemma effect_after_same:
  assumes "same_correlation s s1" and "messageCounter s1 = messageCounter s"
  shows "fulfils k en v s1 s' \<Longrightarrow> fulfils k en v s s'"
    and "stalls k en s1 s' \<Longrightarrow> stalls k en s s'"
  using assms by (simp_all add: fulfils_def stalls_def same_correlation_def)

lemma listener_cases:
  "same_correlation s (listener h now origin m s)
   \<or> (\<exists>k en. truthy (get_field m (js ''isResponse''))
         \<and> property_key h (get_field m (js ''responseToId'')) = Inr k
         \<and> get_field m (js ''status'') \<noteq> JStr (js ''error'')
         \<and> fulfils k en (get_field m (js ''payload'')) s (listener h now origin m s))
   \<or> (\<exists>k en. truthy (get_field m (js ''isResponse''))
         \<and> property_key h (get_field m (js ''responseToId'')) = Inr k
         \<and> get_field m (js ''status'') = JStr (js ''error'')
         \<and> stalls k en s (listener h now origin m s))"
proof (cases "isOriginAllowed h (allowedOrigins s) origin = Inr True
              \<and> validateMessage h now m = Inr True
              \<and> (debug s \<longrightarrow> (\<exists>u. to_string h (get_field m (js ''id'')) = Inr u))
              \<and> truthy (get_field m (js ''isResponse''))
              \<and> truthy (get_field m (js ''responseToId''))")
  case True
  let ?s1 = "console_debug (Log_received (get_field m (js ''id'')) origin m) s"
  have l: "listener h now origin m s = handle_response h m ?s1"
    using True by (auto simp: listener_def template_debug_def)
  have s1: "same_correlation s ?s1" "messageCounter ?s1 = messageCounter s"
    by (simp_all add: console_debug_def same_correlation_def)
  from handle_response_cases [of ?s1 h m] show ?thesis
  proof (elim disjE exE conjE)
    assume "same_correlation ?s1 (handle_response h m ?s1)"
    with s1(1) have "same_correlation s (listener h now origin m s)"
      unfolding l by (rule same_correlation_trans)
    then show ?thesis by simp
  next
    fix k en
    assume "property_key h (get_field m (js ''responseToId'')) = Inr k"
      and "get_field m (js ''status'') \<noteq> JStr (js ''error'')"
      and "fulfils k en (get_field m (js ''payload'')) ?s1 (handle_response h m ?s1)"
    with True effect_after_same(1) [OF s1] show ?thesis
      unfolding l by blast
  next
    fix k en
    assume "property_key h (get_field m (js ''responseToId'')) = Inr k"
      and "get_field m (js ''status'') = JStr (js ''error'')"
      and "stalls k en ?s1 (handle_response h m ?s1)"
    with True effect_after_same(2) [OF s1] show ?thesis
      unfolding l by blast
  qed
next
  case False
  have d: "\<And>e. same_correlation s (dispatch h now m (console_debug e s))"
    using same_console_debug [OF same_correlation_refl] by (rule same_dispatch)
  have c: "\<And>e. same_correlation s (console_debug e s)"
    using same_correlation_refl by (rule same_console_debug)
  have f: "\<And>x. same_correlation s (s\<lparr>faults := faults s @ [x]\<rparr>)"
    using same_correlation_refl by (rule same_upd)
  have "same_correlation s (listener h now origin m s)"
    using False d c f
    by (auto simp: listener_def template_debug_def split: sum.splits bool.splits)
  then show ?thesis by simp
qed

lemma fire_timeout_cases:
  "same_correlation s (fire_timeout tid s) \<or> (\<exists>t. expires tid t s (fire_timeout tid s))"
  by (cases "timers s tid") (simp_all add: fire_timeout_def same_correlation_def expires_def)

text \<open>
  Every step leaves the correlation table alone, or extends the allowlist and leaves
  the table alone, or is one of the four changes.
\<close>

lemma step_cases:
  "same_correlation s (step h e s)
   \<or> (\<exists>l. e = AllowOrigins (Some l) \<and> same_table s (step h e s)
          \<and> allowedOrigins (step h e s) = allowedOrigins s @ l)
   \<or> (\<exists>now m t rr. e = PostMessage now m t rr \<and> registers h now s (step h e s))
   \<or> (\<exists>tid t. e = Timeout tid \<and> expires tid t s (step h e s))
   \<or> (\<exists>now origin m k en. e = Message now origin m
         \<and> truthy (get_field m (js ''isResponse''))
         \<and> property_key h (get_field m (js ''responseToId'')) = Inr k
         \<and> get_field m (js ''status'') \<noteq> JStr (js ''error'')
         \<and> fulfils k en (get_field m (js ''payload'')) s (step h e s))
   \<or> (\<exists>now origin m k en. e = Message now origin m
         \<and> truthy (get_field m (js ''isResponse''))
         \<and> property_key h (get_field m (js ''responseToId'')) = Inr k
         \<and> get_field m (js ''status'') = JStr (js ''error'')
         \<and> stalls k en s (step h e s))"
proof (cases e)
  case (AllowOrigins a)
  then show ?thesis
    by (cases a)
      (simp_all add: allowOrigins_def Let_def console_debug_def same_correlation_def same_table_def)
next
  case (PostMessage now m t rr)
  with postMessage_cases [of s h now m t rr] show ?thesis
    by auto
next
  case (RegisterHandler type f)
  with same_registerHandler [OF same_correlation_refl] show ?thesis
    by simp
next
  case (OnMessage cb)
  with same_onMessage [OF same_correlation_refl] show ?thesis
    by simp
next
  case (RespondToMessage now messageId responseData targetOrigin status)
  with same_respondToMessage [OF same_correlation_refl] show ?thesis
    by simp
next
  case (Message now origin m)
  with listener_cases [of s h now origin m] show ?thesis
    by auto
next
  case (Timeout tid)
  with fire_timeout_cases [of s tid] show ?thesis
    by auto
next
  case (Settle now n)
  with same_run_job [OF same_correlation_refl] show ?thesis
    by simp
qed

subsection \<open>The invariant of the correlation table\<close>

lemma inv_constructor: "tinv h (constructor opts)"
  by (simp add: tinv_def constructor_def Let_def)

lemma inv_entry:
  assumes "tinv h s" and "pendingResponses s k = Some e"
  shows "p_promise e < length (promises s)"
    and "pr_messageId (promises s ! p_promise e) = k"
    and "p_timeoutId e < nextTimer s"
  using assms unfolding tinv_def by blast+

lemma inv_timeout_ids:
  assumes "tinv h s" and "pendingResponses s k = Some e" and "pendingResponses s k' = Some e'"
    and "p_timeoutId e = p_timeoutId e'"
  shows "k = k'"
  using assms unfolding tinv_def by blast

lemma inv_timer:
  assumes "tinv h s" and "timers s tid = Some t"
  shows "pendingResponses s (t_messageId t) = Some \<lparr>p_promise = t_promise t, p_timeoutId = tid\<rparr>"
  using assms unfolding tinv_def by blast

lemma inv_ids:
  "tinv h s \<Longrightarrow> p < length (promises s) \<Longrightarrow>
   \<exists>now n. n \<le> messageCounter s \<and> pr_messageId (promises s ! p) = message_id h now n"
  by (simp add: tinv_def)

lemma inv_distinct: "tinv h s \<Longrightarrow> distinct (map pr_messageId (promises s))"
  by (simp add: tinv_def)

lemma inv_distinct_ids:
  assumes "tinv h s" and "p < length (promises s)" and "q < length (promises s)"
    and "pr_messageId (promises s ! p) = pr_messageId (promises s ! q)"
  shows "p = q"
  using inv_distinct [OF assms(1)] assms(2-4) by (auto simp: distinct_conv_nth)

lemma inv_fresh_id:
  assumes "tinv h s"
  shows "next_id h now s \<notin> set (map pr_messageId (promises s))"
proof
  assume "next_id h now s \<in> set (map pr_messageId (promises s))"
  then have "\<exists>p < length (promises s). pr_messageId (promises s ! p) = next_id h now s"
    by (metis in_set_conv_nth length_map nth_map)
  then obtain p where p: "p < length (promises s)"
    and eq: "pr_messageId (promises s ! p) = next_id h now s"
    by blast
  from inv_ids [OF assms p] obtain now' n where n: "n \<le> messageCounter s"
    and "pr_messageId (promises s ! p) = message_id h now' n"
    by blast
  with eq have "message_id h now (Suc (messageCounter s)) = message_id h now' n"
    by (simp add: next_id_def)
  then have "Suc (messageCounter s) = n"
    by (rule message_id_counter)
  with n show False by simp
qed

lemma inv_fresh_key:
  assumes "tinv h s" and "pendingResponses s k = Some e"
  shows "k \<noteq> next_id h now s"
proof
  assume "k = next_id h now s"
  with inv_entry(1,2) [OF assms] have "next_id h now s \<in> set (map pr_messageId (promises s))"
    by (metis length_map nth_map nth_mem)
  with inv_fresh_id [OF assms(1)] show False by simp
qed

lemma inv_intro:
  assumes "\<And>k e. pendingResponses s k = Some e \<Longrightarrow>
        p_promise e < length (promises s) \<and> pr_messageId (promises s ! p_promise e) = k \<and>
        p_timeoutId e < nextTimer s"
    and "\<And>k e k' e'. pendingResponses s k = Some e \<Longrightarrow> pendingResponses s k' = Some e' \<Longrightarrow>
        p_timeoutId e = p_timeoutId e' \<Longrightarrow> k = k'"
    and "\<And>tid t. timers s tid = Some t \<Longrightarrow>
        pendingResponses s (t_messageId t) = Some \<lparr>p_promise = t_promise t, p_timeoutId = tid\<rparr>"
    and "\<And>p. p < length (promises s) \<Longrightarrow>
        \<exists>now n. n \<le> messageCounter s \<and> pr_messageId (promises s ! p) = message_id h now n"
    and "distinct (map pr_messageId (promises s))"
  shows "tinv h s"
  unfolding tinv_def using assms by blast

lemma inv_same_table:
  assumes t: "same_table s s'" and i: "tinv h s"
  shows "tinv h s'"
proof -
  from t have f: "pendingResponses s' = pendingResponses s" "timers s' = timers s"
    "nextTimer s' = nextTimer s" "promises s' = promises s"
    and c: "messageCounter s \<le> messageCounter s'"
    by (simp_all add: same_table_def)
  show ?thesis
  proof (rule inv_intro)
    fix p assume "p < length (promises s')"
    then have "p < length (promises s)" by (simp add: f)
    from inv_ids [OF i this] obtain now n where
      "n \<le> messageCounter s" "pr_messageId (promises s ! p) = message_id h now n"
      by blast
    with c have "n \<le> messageCounter s' \<and> pr_messageId (promises s' ! p) = message_id h now n"
      by (simp add: f)
    then show "\<exists>now n. n \<le> messageCounter s' \<and> pr_messageId (promises s' ! p) = message_id h now n"
      by blast
  qed (use i inv_entry [OF i] inv_timeout_ids [OF i] inv_timer [OF i] inv_distinct [OF i]
       in \<open>simp_all add: f\<close>)
qed

lemma same_table_of_correlation: "same_correlation s s' \<Longrightarrow> same_table s s'"
  by (simp add: same_correlation_def same_table_def)

lemma inv_same:
  assumes "same_correlation s s'" and "tinv h s"
  shows "tinv h s'"
  using same_table_of_correlation [OF assms(1)] assms(2) by (rule inv_same_table)

lemma inv_registers:
  assumes i: "tinv h s" and r: "registers h now s s'"
  shows "tinv h s'"
proof -
  let ?mid = "next_id h now s"
  let ?P = "length (promises s)"
  from r obtain st where
    pr: "promises s' = promises s @ [\<lparr>pr_messageId = ?mid, pr_state = st\<rparr>]"
    and tm: "timers s' = (timers s)(nextTimer s \<mapsto>
        \<lparr>t_messageId = ?mid, t_promise = ?P, t_delay = messageTimeout s\<rparr>)"
    and nt: "nextTimer s' = Suc (nextTimer s)"
    and pe: "pendingResponses s' = (pendingResponses s)(?mid \<mapsto>
        \<lparr>p_promise = ?P, p_timeoutId = nextTimer s\<rparr>)"
    and mc: "messageCounter s' = Suc (messageCounter s)"
    unfolding registers_def by blast
  note keyne = inv_fresh_key [OF i, of _ _ now]
  show ?thesis
  proof (rule inv_intro)
    fix k e assume k: "pendingResponses s' k = Some e"
    show "p_promise e < length (promises s') \<and> pr_messageId (promises s' ! p_promise e) = k \<and>
        p_timeoutId e < nextTimer s'"
    proof (cases "k = ?mid")
      case True
      with k show ?thesis by (auto simp: pe pr nt)
    next
      case False
      with k have "pendingResponses s k = Some e" by (simp add: pe)
      from inv_entry [OF i this] show ?thesis
        by (simp add: pr nt nth_append)
    qed
  next
    fix k e k' e'
    assume k: "pendingResponses s' k = Some e" and k': "pendingResponses s' k' = Some e'"
      and eq: "p_timeoutId e = p_timeoutId e'"
    have old: "p_timeoutId x < nextTimer s" if "pendingResponses s' j = Some x" "j \<noteq> ?mid" for j x
      using that inv_entry(3) [OF i, of j x] by (simp add: pe)
    have new: "p_timeoutId x = nextTimer s" if "pendingResponses s' ?mid = Some x" for x
      using that by (auto simp: pe)
    show "k = k'"
    proof (cases "k = ?mid")
      case True
      show ?thesis
      proof (cases "k' = ?mid")
        case True
        with \<open>k = ?mid\<close> show ?thesis by simp
      next
        case False
        from old [OF k' False] new [of e] k True eq show ?thesis by simp
      qed
    next
      case False
      show ?thesis
      proof (cases "k' = ?mid")
        case True
        from old [OF k False] new [of e'] k' True eq show ?thesis by simp
      next
        case n: False
        from k False have a: "pendingResponses s k = Some e" by (simp add: pe)
        from k' n have b: "pendingResponses s k' = Some e'" by (simp add: pe)
        from inv_timeout_ids [OF i a b eq] show ?thesis .
      qed
    qed
  next
    fix tid t assume t: "timers s' tid = Some t"
    show "pendingResponses s' (t_messageId t) = Some \<lparr>p_promise = t_promise t, p_timeoutId = tid\<rparr>"
    proof (cases "tid = nextTimer s")
      case True
      with t show ?thesis by (auto simp: tm pe)
    next
      case False
      with t have t0: "timers s tid = Some t" by (simp add: tm)
      from inv_timer [OF i t0] keyne [OF inv_timer [OF i t0]] show ?thesis
        by (simp add: pe)
    qed
  next
    fix p assume "p < length (promises s')"
    then have "p < ?P \<or> p = ?P" by (auto simp: pr)
    then show "\<exists>now n. n \<le> messageCounter s' \<and> pr_messageId (promises s' ! p) = message_id h now n"
    proof
      assume p: "p < ?P"
      from inv_ids [OF i p] obtain now' n where
        "n \<le> messageCounter s" "pr_messageId (promises s ! p) = message_id h now' n"
        by blast
      with p have "n \<le> messageCounter s' \<and> pr_messageId (promises s' ! p) = message_id h now' n"
        by (simp add: pr mc nth_append)
      then show ?thesis by blast
    next
      assume "p = ?P"
      then have "Suc (messageCounter s) \<le> messageCounter s'
          \<and> pr_messageId (promises s' ! p) = message_id h now (Suc (messageCounter s))"
        by (simp add: pr mc next_id_def)
      then show ?thesis by blast
    qed
  next
    show "distinct (map pr_messageId (promises s'))"
      using inv_distinct [OF i] inv_fresh_id [OF i, of now] by (simp add: pr)
  qed
qed

lemma inv_expires:
  assumes i: "tinv h s" and x: "expires tid t s s'"
  shows "tinv h s'"
proof -
  from x have t: "timers s tid = Some t"
    and tm: "timers s' = (timers s)(tid := None)"
    and pe: "pendingResponses s' = (pendingResponses s)(t_messageId t := None)"
    and f: "nextTimer s' = nextTimer s" "promises s' = promises s"
      "messageCounter s' = messageCounter s"
    by (simp_all add: expires_def)
  show ?thesis
  proof (rule inv_intro)
    fix k e assume "pendingResponses s' k = Some e"
    then have "pendingResponses s k = Some e"
      by (simp add: pe split: if_splits)
    from inv_entry [OF i this] show "p_promise e < length (promises s') \<and>
        pr_messageId (promises s' ! p_promise e) = k \<and> p_timeoutId e < nextTimer s'"
      by (simp add: f)
  next
    fix k e k' e'
    assume "pendingResponses s' k = Some e" and "pendingResponses s' k' = Some e'"
      and eq: "p_timeoutId e = p_timeoutId e'"
    then have "pendingResponses s k = Some e" "pendingResponses s k' = Some e'"
      by (simp_all add: pe split: if_splits)
    from inv_timeout_ids [OF i this eq] show "k = k'" .
  next
    fix tid' t' assume "timers s' tid' = Some t'"
    then have ne: "tid' \<noteq> tid" and t': "timers s tid' = Some t'"
      by (simp_all add: tm split: if_splits)
    have "t_messageId t' \<noteq> t_messageId t"
      using inv_timer [OF i t'] inv_timer [OF i t] ne by auto
    with inv_timer [OF i t']
    show "pendingResponses s' (t_messageId t') = Some \<lparr>p_promise = t_promise t', p_timeoutId = tid'\<rparr>"
      by (simp add: pe)
  next
    fix p assume "p < length (promises s')"
    with inv_ids [OF i, of p]
    show "\<exists>now n. n \<le> messageCounter s' \<and> pr_messageId (promises s' ! p) = message_id h now n"
      by (simp add: f)
  next
    show "distinct (map pr_messageId (promises s'))"
      using inv_distinct [OF i] by (simp add: f)
  qed
qed

lemma settled_ids:
  "length (settled_promises p r ps) = length ps"
  "map pr_messageId (settled_promises p r ps) = map pr_messageId ps"
  "pr_messageId (settled_promises p r ps ! q) = pr_messageId (ps ! q)"
proof -
  show "length (settled_promises p r ps) = length ps"
    by (simp add: settled_promises_def)
  show "map pr_messageId (settled_promises p r ps) = map pr_messageId ps"
    by (simp add: settled_promises_def map_update list_update_same_conv)
  show "pr_messageId (settled_promises p r ps ! q) = pr_messageId (ps ! q)"
    by (cases "q < length ps") (auto simp: settled_promises_def nth_list_update)
qed

lemma settled_other: "q \<noteq> p \<Longrightarrow> settled_promises p r ps ! q = ps ! q"
  by (simp add: settled_promises_def)

lemma settled_self:
  "p < length ps \<Longrightarrow> pr_state (ps ! p) = None \<Longrightarrow> pr_state (settled_promises p r ps ! p) = Some r"
  by (simp add: settled_promises_def)

lemma inv_fulfils:
  assumes i: "tinv h s" and x: "fulfils k en v s s'"
  shows "tinv h s'"
proof -
  from x have en: "pendingResponses s k = Some en"
    and tm: "timers s' = (timers s)(p_timeoutId en := None)"
    and pe: "pendingResponses s' = (pendingResponses s)(k := None)"
    and nt: "nextTimer s' = nextTimer s"
    and pr: "promises s' = settled_promises (p_promise en) (Fulfilled v) (promises s)"
    and mc: "messageCounter s' = messageCounter s"
    by (simp_all add: fulfils_def)
  show ?thesis
  proof (rule inv_intro)
    fix j e assume "pendingResponses s' j = Some e"
    then have "pendingResponses s j = Some e"
      by (simp add: pe split: if_splits)
    from inv_entry [OF i this] show "p_promise e < length (promises s') \<and>
        pr_messageId (promises s' ! p_promise e) = j \<and> p_timeoutId e < nextTimer s'"
      by (simp add: pr nt settled_ids)
  next
    fix j e j' e'
    assume "pendingResponses s' j = Some e" and "pendingResponses s' j' = Some e'"
      and eq: "p_timeoutId e = p_timeoutId e'"
    then have "pendingResponses s j = Some e" "pendingResponses s j' = Some e'"
      by (simp_all add: pe split: if_splits)
    from inv_timeout_ids [OF i this eq] show "j = j'" .
  next
    fix tid' t' assume "timers s' tid' = Some t'"
    then have ne: "tid' \<noteq> p_timeoutId en" and t': "timers s tid' = Some t'"
      by (simp_all add: tm split: if_splits)
    have "t_messageId t' \<noteq> k"
      using inv_timer [OF i t'] en ne by auto
    with inv_timer [OF i t']
    show "pendingResponses s' (t_messageId t') = Some \<lparr>p_promise = t_promise t', p_timeoutId = tid'\<rparr>"
      by (simp add: pe)
  next
    fix p assume "p < length (promises s')"
    with inv_ids [OF i, of p]
    show "\<exists>now n. n \<le> messageCounter s' \<and> pr_messageId (promises s' ! p) = message_id h now n"
      by (simp add: pr mc settled_ids)
  next
    show "distinct (map pr_messageId (promises s'))"
      using inv_distinct [OF i] by (simp add: pr settled_ids)
  qed
qed

lemma inv_stalls:
  assumes i: "tinv h s" and x: "stalls k en s s'"
  shows "tinv h s'"
proof -
  from x have tm: "timers s' = (timers s)(p_timeoutId en := None)"
    and f: "pendingResponses s' = pendingResponses s" "nextTimer s' = nextTimer s"
      "promises s' = promises s" "messageCounter s' = messageCounter s"
    by (simp_all add: stalls_def)
  show ?thesis
  proof (rule inv_intro)
    fix tid' t' assume "timers s' tid' = Some t'"
    then have "timers s tid' = Some t'"
      by (simp add: tm split: if_splits)
    from inv_timer [OF i this]
    show "pendingResponses s' (t_messageId t') = Some \<lparr>p_promise = t_promise t', p_timeoutId = tid'\<rparr>"
      by (simp add: f)
  qed (use i inv_entry [OF i] inv_timeout_ids [OF i] inv_ids [OF i] inv_distinct [OF i]
       in \<open>simp_all add: f\<close>)
qed

lemma inv_step:
  assumes i: "tinv h s"
  shows "tinv h (step h e s)"
  using step_cases [of s h e]
proof (elim disjE exE conjE)
  assume "same_correlation s (step h e s)"
  then show ?thesis using i by (rule inv_same)
next
  fix l assume "same_table s (step h e s)"
  then show ?thesis using i by (rule inv_same_table)
next
  fix now m t rr assume "registers h now s (step h e s)"
  with i show ?thesis by (rule inv_registers)
next
  fix tid t assume "expires tid t s (step h e s)"
  with i show ?thesis by (rule inv_expires)
next
  fix now origin m k en
  assume "fulfils k en (get_field m (js ''payload'')) s (step h e s)"
  with i show ?thesis by (rule inv_fulfils)
next
  fix now origin m k en
  assume "stalls k en s (step h e s)"
  with i show ?thesis by (rule inv_stalls)
qed

lemma inv_run: "tinv h s \<Longrightarrow> tinv h (run h es s)"
  by (induction es arbitrary: s) (simp_all add: inv_step)

lemma inv_reachable: "tinv h (run h es (constructor opts))"
  by (rule inv_run) (rule inv_constructor)

lemma run_append: "run h (xs @ ys) s = run h ys (run h xs s)"
  by (induction xs arbitrary: s) simp_all

subsection \<open>The allowlist\<close>

lemma origins_step: "\<exists>l. allowedOrigins (step h e s) = allowedOrigins s @ l"
  using step_cases [of s h e]
  by (auto simp: same_correlation_def registers_def expires_def fulfils_def stalls_def)

lemma origins_run: "\<exists>l. allowedOrigins (run h es s) = allowedOrigins s @ l"
proof (induction es arbitrary: s)
  case Nil
  show ?case by simp
next
  case (Cons e es)
  from Cons.IH [of "step h e s"] obtain l where
    "allowedOrigins (run h es (step h e s)) = allowedOrigins (step h e s) @ l"
    by blast
  moreover from origins_step [of h e s] obtain l' where
    "allowedOrigins (step h e s) = allowedOrigins s @ l'"
    by blast
  ultimately show ?case
    by simp
qed

text \<open>
  C10. \<^verbatim>\<open>allowOrigins\<close> appends its argument to the allowlist and removes nothing, and
  no run of the bridge, whatever its events, leaves an allowlist that is not the old
  one with something appended. So an origin the check accepts is still accepted after
  a call of \<^verbatim>\<open>allowOrigins\<close> and after any run.
\<close>

theorem allowlist_only_grows:
  "allowedOrigins (snd (allowOrigins (Some l) s)) = allowedOrigins s @ l \<and>
   (\<exists>l'. allowedOrigins (run h es s) = allowedOrigins s @ l') \<and>
   (isOriginAllowed h (allowedOrigins s) origin = Inr True \<longrightarrow>
      isOriginAllowed h (allowedOrigins (snd (allowOrigins (Some l) s))) origin = Inr True \<and>
      isOriginAllowed h (allowedOrigins (run h es s)) origin = Inr True)"
proof -
  have a: "allowedOrigins (snd (allowOrigins (Some l) s)) = allowedOrigins s @ l"
    by (simp add: allowOrigins_def Let_def console_debug_def)
  obtain l' where r: "allowedOrigins (run h es s) = allowedOrigins s @ l'"
    using origins_run by blast
  show ?thesis
    using a r by (auto simp: isOriginAllowed_append)
qed

theorem allowlist_only_grows_witness:
  "isOriginAllowed example_host (allowedOrigins (constructor example_options)) (js ''https://a.test'') = Inr True \<and>
   isOriginAllowed example_host
     (allowedOrigins (snd (allowOrigins (Some [js ''https://b.test'']) (constructor example_options))))
     (js ''https://a.test'') = Inr True \<and>
   isOriginAllowed example_host
     (allowedOrigins (run example_host [AllowOrigins (Some [js ''https://b.test''])]
        (constructor example_options)))
     (js ''https://a.test'') = Inr True"
proof -
  have h: "isOriginAllowed example_host (allowedOrigins (constructor example_options)) (js ''https://a.test'') = Inr True"
    by (simp add: constructor_def example_options_def isOriginAllowed_def js_def star_def)
  show ?thesis
    using h allowlist_only_grows [where l = "[js ''https://b.test'']"
        and s = "constructor example_options" and h = example_host
        and es = "[AllowOrigins (Some [js ''https://b.test''])]" and origin = "js ''https://a.test''"]
    by blast
qed

subsection \<open>Registration before transport\<close>

text \<open>
  C9. When \<^verbatim>\<open>postMessage\<close> is called with \<^verbatim>\<open>requiresResponse\<close> and accepts the message,
  the transport is called on a state in which the table already holds the entry for
  the id of the envelope it is given, the entry's timer is scheduled and the promise
  exists; nothing has been sent before. This holds whatever the transport call does
  with that state, a synchronous delivery to the listener included, and whether it
  returns or throws. The message is accepted when it is an object, the target is
  truthy, the JSON text is within the limit and, in debug mode, the target can be
  written into the log line.
\<close>

theorem entry_recorded_before_transport:
  assumes "truthy m" and "typeof_object m" and "truthy targetOrigin"
    and "int (length (JSON_stringify h m)) \<le> maxMessageSize s"
    and "debug s \<longrightarrow> (\<exists>u. to_string h targetOrigin = Inr u)"
    and "truthy requiresResponse"
  shows "postMessage_via tr h now m targetOrigin requiresResponse s =
           (Inr (Awaiting (length (promises s))),
            executor_end (length (promises s))
              (tr (envelope h now (next_id h now s) targetOrigin m requiresResponse) targetOrigin
                  (registered h now m targetOrigin requiresResponse s))) \<and>
         get_field (envelope h now (next_id h now s) targetOrigin m requiresResponse) (js ''id'')
           = JStr (next_id h now s) \<and>
         pendingResponses (registered h now m targetOrigin requiresResponse s) (next_id h now s)
           = Some \<lparr>p_promise = length (promises s), p_timeoutId = nextTimer s\<rparr> \<and>
         timers (registered h now m targetOrigin requiresResponse s) (nextTimer s)
           = Some \<lparr>t_messageId = next_id h now s, t_promise = length (promises s),
                   t_delay = messageTimeout s\<rparr> \<and>
         promises (registered h now m targetOrigin requiresResponse s)
           = promises s @ [\<lparr>pr_messageId = next_id h now s, pr_state = None\<rparr>] \<and>
         sent (registered h now m targetOrigin requiresResponse s) = sent s"
proof -
  have "postMessage_via tr h now m targetOrigin requiresResponse s =
           (Inr (Awaiting (length (promises s))),
            executor_end (length (promises s))
              (tr (envelope h now (next_id h now s) targetOrigin m requiresResponse) targetOrigin
                  (registered h now m targetOrigin requiresResponse s)))"
    using assms by (auto simp: postMessage_via_unfold)
  then show ?thesis
    by (simp add: registered_fields envelope_def js_def)
qed

theorem entry_recorded_before_transport_witness:
  "truthy ping \<and> typeof_object ping \<and> truthy (JStr (js ''https://a.test'')) \<and>
   int (length (JSON_stringify example_host ping)) \<le> maxMessageSize (constructor example_options) \<and>
   debug (constructor example_options) = False \<and>
   truthy (JBool True) \<and>
   promises (snd (postMessage_via loopback example_host 1000 ping (JStr (js ''https://a.test''))
                    (JBool True) (constructor example_options)))
     = [\<lparr>pr_messageId = js ''msg_1000_1_k3x9'',
         pr_state = Some (Fulfilled (JObj [(js ''pong'', JBool True)]))\<rparr>]"
proof -
  have h: "truthy ping" "typeof_object ping" "truthy (JStr (js ''https://a.test''))"
    "int (length (JSON_stringify example_host ping)) \<le> maxMessageSize (constructor example_options)"
    "debug (constructor example_options) \<longrightarrow> (\<exists>u. to_string example_host (JStr (js ''https://a.test'')) = Inr u)"
    "truthy (JBool True)"
    by (simp_all add: ping_def send_eval)
  have d: "debug (constructor example_options) = False"
    by (simp add: send_eval)
  have "promises (executor_end 0
           (loopback (envelope example_host 1000 (next_id example_host 1000 (constructor example_options))
                    (JStr (js ''https://a.test'')) ping (JBool True)) (JStr (js ''https://a.test''))
           (registered example_host 1000 ping (JStr (js ''https://a.test'')) (JBool True)
              (constructor example_options))))
     = [\<lparr>pr_messageId = js ''msg_1000_1_k3x9'',
         pr_state = Some (Fulfilled (JObj [(js ''pong'', JBool True)]))\<rparr>]"
    by (simp add: loopback_def reply_to_def registered_def ping_def send_eval)
  moreover have "length (promises (constructor example_options)) = 0"
    by (simp add: send_eval)
  ultimately show ?thesis
    using h d entry_recorded_before_transport [OF h, where tr = loopback and now = 1000]
    by simp
qed

subsection \<open>Responses\<close>

lemma calls_of_same: "continuations s' = continuations s \<Longrightarrow> calls_of p s' = calls_of p s"
  by (simp add: calls_of_def)

lemma calls_of_snoc:
  "continuations s' = continuations s @ [(q, r)] \<Longrightarrow>
   calls_of p s' = calls_of p s @ (if q = p then [(q, r)] else [])"
  by (simp add: calls_of_def)

lemma open_step:
  assumes i: "tinv h s" and o: "open_request s p mid tid" and e: "e \<noteq> Timeout tid"
  shows "open_request (step h e s) p mid tid"
proof -
  let ?s' = "step h e s"
  from o have p: "p < length (promises s)" and id: "pr_messageId (promises s ! p) = mid"
    and live: "calls_of p s = [] \<Longrightarrow>
        pr_state (promises s ! p) = None \<and>
        pendingResponses s mid = Some \<lparr>p_promise = p, p_timeoutId = tid\<rparr>"
    by (simp_all add: open_request_def)
  have unchanged: "open_request ?s' p mid tid"
    if "pendingResponses ?s' = pendingResponses s" "promises ?s' = promises s"
      "continuations ?s' = continuations s"
    using o that by (simp add: open_request_def calls_of_def)
  from step_cases [of s h e] show ?thesis
  proof (elim disjE exE conjE)
    assume "same_correlation s ?s'"
    then show ?thesis
      by (intro unchanged) (simp_all add: same_correlation_def)
  next
    fix l assume "same_table s ?s'"
    then show ?thesis
      by (intro unchanged) (simp_all add: same_table_def)
  next
    fix now m t rr assume r: "registers h now s ?s'"
    then obtain st where
      pr: "promises ?s' = promises s @ [\<lparr>pr_messageId = next_id h now s, pr_state = st\<rparr>]"
      and pe: "pendingResponses ?s' = (pendingResponses s)(next_id h now s \<mapsto>
          \<lparr>p_promise = length (promises s), p_timeoutId = nextTimer s\<rparr>)"
      and co: "continuations ?s' = continuations s"
      unfolding registers_def by blast
    have mem: "mid \<in> set (map pr_messageId (promises s))"
      using p id by (metis length_map nth_map nth_mem)
    have ne: "mid \<noteq> next_id h now s"
    proof
      assume "mid = next_id h now s"
      with mem inv_fresh_id [OF i, of now] show False
        by (simp only:)
    qed
    show ?thesis
      using p id live ne
      by (simp add: open_request_def pr pe calls_of_same [OF co] nth_append)
  next
    fix tid' t assume ev: "e = Timeout tid'" and x: "expires tid' t s ?s'"
    from x have t: "timers s tid' = Some t"
      and pe: "pendingResponses ?s' = (pendingResponses s)(t_messageId t := None)"
      and pr: "promises ?s' = promises s" and co: "continuations ?s' = continuations s"
      by (simp_all add: expires_def)
    from ev e have ne: "tid' \<noteq> tid" by simp
    have "t_messageId t \<noteq> mid" if "calls_of p s = []"
      using live [OF that] inv_timer [OF i t] ne by auto
    then show ?thesis
      using p id live
      by (auto simp: open_request_def pr pe calls_of_same [OF co])
  next
    fix now origin m k en
    assume x: "fulfils k en (get_field m (js ''payload'')) s ?s'"
    let ?v = "get_field m (js ''payload'')"
    from x have en: "pendingResponses s k = Some en"
      and pe: "pendingResponses ?s' = (pendingResponses s)(k := None)"
      and pr: "promises ?s' = settled_promises (p_promise en) (Fulfilled ?v) (promises s)"
      and co: "continuations ?s' = continuations s @ [(p_promise en, Fulfilled ?v)]"
      by (simp_all add: fulfils_def)
    show ?thesis
    proof (cases "p_promise en = p")
      case True
      then have "calls_of p ?s' \<noteq> []"
        by (simp add: calls_of_snoc [OF co])
      then show ?thesis
        using p id by (simp add: open_request_def pr settled_ids)
    next
      case False
      have "k \<noteq> mid"
      proof
        assume "k = mid"
        with inv_entry(1,2) [OF i en] id have "p_promise en = p"
          by (intro inv_distinct_ids [OF i _ p]) simp_all
        with False show False by simp
      qed
      then show ?thesis
        using p id live False
        by (simp add: open_request_def pr pe calls_of_snoc [OF co] settled_ids settled_other)
    qed
  next
    fix now origin m k en
    assume "stalls k en s ?s'"
    then show ?thesis
      by (intro unchanged) (simp_all add: stalls_def)
  qed
qed

lemma open_run:
  "tinv h s \<Longrightarrow> open_request s p mid tid \<Longrightarrow> Timeout tid \<notin> set es
   \<Longrightarrow> open_request (run h es s) p mid tid"
proof (induction es arbitrary: s)
  case Nil
  then show ?case by simp
next
  case (Cons e es)
  from Cons.prems have "e \<noteq> Timeout tid" "Timeout tid \<notin> set es"
    by auto
  with Cons.IH [OF inv_step [OF Cons.prems(1)] open_step [OF Cons.prems(1,2)]]
  show ?case by simp
qed

lemma postMessage_awaiting:
  assumes post: "postMessage h now m t rr s = (Inr (Awaiting p), s1)"
  shows "p = length (promises s)"
    and "s1 = executor_end (length (promises s))
                (window_parent_postMessage h (envelope h now (next_id h now s) t m rr) t
                   (registered h now m t rr s))"
proof -
  have "p = length (promises s) \<and>
        s1 = executor_end (length (promises s))
                (window_parent_postMessage h (envelope h now (next_id h now s) t m rr) t
                   (registered h now m t rr s))"
    using post
    by (auto simp: postMessage_def postMessage_via_unfold
        split: if_splits sum.splits prod.splits option.splits)
  then show "p = length (promises s)"
    and "s1 = executor_end (length (promises s))
                (window_parent_postMessage h (envelope h now (next_id h now s) t m rr) t
                   (registered h now m t rr s))"
    by simp_all
qed

lemma request_sent:
  assumes "sent (executor_end p (window_parent_postMessage h env t s)) \<noteq> sent s"
  shows "executor_end p (window_parent_postMessage h env t s) = s\<lparr>sent := sent s @ [(env, t)]\<rparr>"
  using assms
  by (cases "transport_check h t") (simp_all add: executor_end_def window_parent_postMessage_def)

lemma listener_response:
  assumes "isOriginAllowed h (allowedOrigins s) origin = Inr True"
    and "validateMessage h now r = Inr True"
    and "debug s \<longrightarrow> (\<exists>u. to_string h (get_field r (js ''id'')) = Inr u)"
    and "truthy (get_field r (js ''isResponse''))"
    and "truthy (get_field r (js ''responseToId''))"
  shows "listener h now origin r s
           = handle_response h r (console_debug (Log_received (get_field r (js ''id'')) origin r) s)"
  using assms by (auto simp: listener_def template_debug_def)

lemma handle_response_own:
  assumes "property_key h (get_field m (js ''responseToId'')) = Inr k"
    and "pendingResponses s k = Some en"
    and "get_field m (js ''status'') \<noteq> JStr (js ''error'')"
  shows "fulfils k en (get_field m (js ''payload'')) s (handle_response h m s)"
  using assms
  by (simp add: handle_response_def js_lookup_def fulfils_def clearTimeout_def settle_def Let_def)

text \<open>
  C2. A request is sent from a reachable state: \<^verbatim>\<open>postMessage\<close> returns promise \<open>p\<close>
  and the host has taken the envelope (the record of what was sent has grown). Further
  events follow, among which the
  request's timer does not fire, and no continuation of \<open>p\<close> has been called by
  their end (no earlier response has resolved it). Then a message arrives that passes
  the origin check and the validation, has a string as its own id, is a response,
  names the request's id in \<^verbatim>\<open>responseToId\<close> and has a status other than error. The
  listener calls \<^verbatim>\<open>resolve\<close> of \<open>p\<close> with the payload of that message, and \<open>p\<close> is
  fulfilled with it.
\<close>

theorem response_fulfils_promise:
  assumes reach: "s0 = run h es0 (constructor opts)"
    and post: "postMessage h now m targetOrigin requiresResponse s0 = (Inr (Awaiting p), s1)"
    and taken: "sent s1 \<noteq> sent s0"
    and later: "s2 = run h es s1"
    and timer: "Timeout (nextTimer s0) \<notin> set es"
    and first: "calls_of p s2 = []"
    and allowed: "isOriginAllowed h (allowedOrigins s2) origin = Inr True"
    and valid: "validateMessage h now' r = Inr True"
    and ident: "get_field r (js ''id'') = JStr i"
    and resp: "truthy (get_field r (js ''isResponse''))"
    and rid: "get_field r (js ''responseToId'') = JStr (next_id h now s0)"
    and ok: "get_field r (js ''status'') \<noteq> JStr (js ''error'')"
  shows "pr_state (promises (listener h now' origin r s2) ! p)
           = Some (Fulfilled (get_field r (js ''payload''))) \<and>
         continuations (listener h now' origin r s2)
           = continuations s2 @ [(p, Fulfilled (get_field r (js ''payload'')))]"
proof -
  let ?mid = "next_id h now s0"
  let ?tid = "nextTimer s0"
  let ?env = "envelope h now ?mid targetOrigin m requiresResponse"
  let ?reg = "registered h now m targetOrigin requiresResponse s0"
  have i0: "tinv h s0"
    unfolding reach by (rule inv_reachable)
  have s1: "s1 = snd (postMessage h now m targetOrigin requiresResponse s0)"
    using post by simp
  have i1: "tinv h s1"
    using inv_step [OF i0, of "PostMessage now m targetOrigin requiresResponse"] s1 by simp
  note pa = postMessage_awaiting [OF post]
  have "sent (executor_end (length (promises s0))
                (window_parent_postMessage h ?env targetOrigin ?reg)) \<noteq> sent ?reg"
    using taken by (simp only: pa(2) registered_fields) simp
  from request_sent [OF this] pa(2)
  have s1': "s1 = ?reg\<lparr>sent := sent ?reg @ [(?env, targetOrigin)]\<rparr>"
    by simp
  have o1: "open_request s1 p ?mid ?tid"
    by (simp add: open_request_def s1' pa(1) registered_fields calls_of_def)
  have o2: "open_request s2 p ?mid ?tid"
    unfolding later using i1 o1 timer by (rule open_run)
  with first have p2: "p < length (promises s2)"
    and st: "pr_state (promises s2 ! p) = None"
    and ent: "pendingResponses s2 ?mid = Some \<lparr>p_promise = p, p_timeoutId = ?tid\<rparr>"
    by (simp_all add: open_request_def)
  let ?s = "console_debug (Log_received (get_field r (js ''id'')) origin r) s2"
  have tr: "truthy (get_field r (js ''responseToId''))"
    unfolding rid next_id_def by (rule message_id_truthy)
  have l: "listener h now' origin r s2 = handle_response h r ?s"
    using allowed valid _ resp tr by (rule listener_response) (simp add: ident)
  have key: "property_key h (get_field r (js ''responseToId'')) = Inr ?mid"
    by (simp add: rid property_key_def)
  have ent': "pendingResponses ?s ?mid = Some \<lparr>p_promise = p, p_timeoutId = ?tid\<rparr>"
    using ent by (simp add: console_debug_fields)
  from handle_response_own [OF key ent' ok]
  have "promises (listener h now' origin r s2)
          = settled_promises p (Fulfilled (get_field r (js ''payload''))) (promises s2)"
    and "continuations (listener h now' origin r s2)
          = continuations s2 @ [(p, Fulfilled (get_field r (js ''payload'')))]"
    by (simp_all add: l fulfils_def console_debug_fields)
  then show ?thesis
    using settled_self [OF p2 st] by simp
qed

theorem response_fulfils_promise_witness:
  "postMessage example_host 1000 ping target (JBool True) (constructor example_options)
     = (Inr (Awaiting 0), awaiting_reply) \<and>
   sent (constructor example_options) = [] \<and>
   sent awaiting_reply
     = [(envelope example_host 1000 (js ''msg_1000_1_k3x9'') target ping (JBool True), target)] \<and>
   nextTimer (constructor example_options) = 0 \<and>
   Timeout 0 \<notin> set [PostMessage 1000 ping target (JBool True), Timeout 1] \<and>
   isOriginAllowed example_host [js ''https://a.test''] (js ''https://a.test'') = Inr True \<and>
   validateMessage example_host 1001 pong = Inr True \<and>
   pr_state
     (promises
        (listener example_host 1001 (js ''https://a.test'') pong
           (run example_host [PostMessage 1000 ping target (JBool True), Timeout 1]
              awaiting_reply)) ! 0)
     = Some (Fulfilled (JObj [(js ''pong'', JBool True)]))"
proof -
  let ?s0 = "run example_host [] (constructor example_options)"
  let ?es = "[PostMessage 1000 ping target (JBool True), Timeout 1]"
  let ?s2 = "run example_host ?es awaiting_reply"
  note ev = run_eval awaiting_reply_def pong_def reply_to_def
  have post: "postMessage example_host 1000 ping target (JBool True) ?s0
                = (Inr (Awaiting 0), awaiting_reply)"
    by (simp add: ev)
  have mid: "next_id example_host 1000 ?s0 = js ''msg_1000_1_k3x9''"
    by (simp add: ev)
  have t0: "sent (constructor example_options) = []"
    by (simp add: ev)
  have t: "sent awaiting_reply
     = [(envelope example_host 1000 (js ''msg_1000_1_k3x9'') target ping (JBool True), target)]"
    by (simp add: ev)
  have taken: "sent awaiting_reply \<noteq> sent ?s0"
    using t t0 by simp
  have nt: "nextTimer ?s0 = 0"
    by (simp add: ev)
  have timer: "Timeout (nextTimer ?s0) \<notin> set ?es"
    using nt by simp
  have first: "calls_of 0 ?s2 = []"
    by (simp add: ev)
  have allowed: "isOriginAllowed example_host (allowedOrigins ?s2) (js ''https://a.test'') = Inr True"
    by (simp add: ev)
  have valid: "validateMessage example_host 1001 pong = Inr True"
    by (simp add: ev)
  have ident: "get_field pong (js ''id'') = JStr (js ''r1'')"
    by (simp add: ev)
  have resp: "truthy (get_field pong (js ''isResponse''))"
    by (simp add: ev)
  have rid: "get_field pong (js ''responseToId'') = JStr (next_id example_host 1000 ?s0)"
    by (simp add: ev)
  have ok: "get_field pong (js ''status'') \<noteq> JStr (js ''error'')"
    by (simp add: ev)
  have pay: "get_field pong (js ''payload'') = JObj [(js ''pong'', JBool True)]"
    by (simp add: ev)
  have a: "isOriginAllowed example_host [js ''https://a.test''] (js ''https://a.test'') = Inr True"
    by (simp add: ev)
  have post0: "postMessage example_host 1000 ping target (JBool True) (constructor example_options)
     = (Inr (Awaiting 0), awaiting_reply)"
    using post by simp
  have nt0: "nextTimer (constructor example_options) = 0"
    using nt by simp
  have tm: "Timeout 0 \<notin> set [PostMessage 1000 ping target (JBool True), Timeout 1]"
    by simp
  have res: "pr_state
     (promises
        (listener example_host 1001 (js ''https://a.test'') pong
           (run example_host [PostMessage 1000 ping target (JBool True), Timeout 1]
              awaiting_reply)) ! 0)
     = Some (Fulfilled (JObj [(js ''pong'', JBool True)]))"
    using response_fulfils_promise [OF refl post taken refl timer first allowed valid ident resp rid ok]
      pay
    by simp
  show ?thesis
    using post0 t0 t nt0 tm a valid res by blast
qed

subsection \<open>No teardown\<close>










subsection \<open>Requests that are never settled\<close>

lemma given_up_step:
  assumes i: "tinv h s" and g: "given_up s p"
  shows "given_up (step h e s) p"
proof -
  let ?s' = "step h e s"
  from g have p: "p < length (promises s)" and st: "pr_state (promises s ! p) = None"
    and ca: "calls_of p s = []"
    and no: "pendingResponses s (pr_messageId (promises s ! p)) = None"
    by (simp_all add: given_up_def)
  have unchanged: "given_up ?s' p"
    if "pendingResponses ?s' = pendingResponses s" "promises ?s' = promises s"
      "continuations ?s' = continuations s"
    using g that by (simp add: given_up_def calls_of_def)
  from step_cases [of s h e] show ?thesis
  proof (elim disjE exE conjE)
    assume "same_correlation s ?s'"
    then show ?thesis
      by (intro unchanged) (simp_all add: same_correlation_def)
  next
    fix l assume "same_table s ?s'"
    then show ?thesis
      by (intro unchanged) (simp_all add: same_table_def)
  next
    fix now m t rr assume r: "registers h now s ?s'"
    then obtain st' where
      pr: "promises ?s' = promises s @ [\<lparr>pr_messageId = next_id h now s, pr_state = st'\<rparr>]"
      and pe: "pendingResponses ?s' = (pendingResponses s)(next_id h now s \<mapsto>
          \<lparr>p_promise = length (promises s), p_timeoutId = nextTimer s\<rparr>)"
      and co: "continuations ?s' = continuations s"
      unfolding registers_def by blast
    have mem: "pr_messageId (promises s ! p) \<in> set (map pr_messageId (promises s))"
      using p by (metis length_map nth_map nth_mem)
    have ne: "pr_messageId (promises s ! p) \<noteq> next_id h now s"
    proof
      assume "pr_messageId (promises s ! p) = next_id h now s"
      with mem inv_fresh_id [OF i, of now] show False
        by (simp only:)
    qed
    show ?thesis
      using p st ca no ne
      by (simp add: given_up_def pr pe calls_of_same [OF co] nth_append)
  next
    fix tid t assume "expires tid t s ?s'"
    then have "pendingResponses ?s' = (pendingResponses s)(t_messageId t := None)"
      and pr: "promises ?s' = promises s" and co: "continuations ?s' = continuations s"
      by (simp_all add: expires_def)
    then show ?thesis
      using p st ca no by (simp add: given_up_def calls_of_same [OF co])
  next
    fix now origin m k en
    assume x: "fulfils k en (get_field m (js ''payload'')) s ?s'"
    let ?v = "get_field m (js ''payload'')"
    from x have en: "pendingResponses s k = Some en"
      and pe: "pendingResponses ?s' = (pendingResponses s)(k := None)"
      and pr: "promises ?s' = settled_promises (p_promise en) (Fulfilled ?v) (promises s)"
      and co: "continuations ?s' = continuations s @ [(p_promise en, Fulfilled ?v)]"
      by (simp_all add: fulfils_def)
    have ne: "p_promise en \<noteq> p"
      using inv_entry(2) [OF i en] en no by auto
    then show ?thesis
      using p st ca no
      by (simp add: given_up_def pr pe calls_of_snoc [OF co] settled_ids settled_other)
  next
    fix now origin m k en
    assume "stalls k en s ?s'"
    then show ?thesis
      by (intro unchanged) (simp_all add: stalls_def)
  qed
qed

lemma given_up_run: "tinv h s \<Longrightarrow> given_up s p \<Longrightarrow> given_up (run h es s) p"
proof (induction es arbitrary: s)
  case Nil
  then show ?case by simp
next
  case (Cons e es)
  from Cons.IH [OF inv_step [OF Cons.prems(1)] given_up_step [OF Cons.prems]]
  show ?case by simp
qed

text \<open>
  C1. A request is pending on the example bridge. When its timer fires, the entry
  leaves the table and the closure throws \<open>ReferenceError\<close> where it meant to build
  the timeout error: no continuation is called, the promise is unsettled, and it stays
  unsettled whatever happens afterwards. When instead a response with status error
  arrives for it, the timer is cleared and the listener throws \<open>ReferenceError\<close>
  where it meant to build the remote error: no continuation is called, the promise is
  unsettled, and the entry stays in the table with no timer left to remove it.
\<close>

theorem request_left_unsettled:
  "pendingResponses awaiting_reply (js ''msg_1000_1_k3x9'')
     = Some \<lparr>p_promise = 0, p_timeoutId = 0\<rparr> \<and>
   continuations (step example_host (Timeout 0) awaiting_reply) = [] \<and>
   pr_state (promises (step example_host (Timeout 0) awaiting_reply) ! 0) = None \<and>
   pendingResponses (step example_host (Timeout 0) awaiting_reply) (js ''msg_1000_1_k3x9'') = None \<and>
   faults (step example_host (Timeout 0) awaiting_reply) = [ReferenceError] \<and>
   (\<forall>es. pr_state (promises (run example_host es (step example_host (Timeout 0) awaiting_reply)) ! 0)
          = None) \<and>
   continuations (step example_host (Message 1001 (js ''https://a.test'') pang) awaiting_reply) = [] \<and>
   pr_state (promises (step example_host (Message 1001 (js ''https://a.test'') pang) awaiting_reply) ! 0)
     = None \<and>
   pendingResponses (step example_host (Message 1001 (js ''https://a.test'') pang) awaiting_reply)
     (js ''msg_1000_1_k3x9'') = Some \<lparr>p_promise = 0, p_timeoutId = 0\<rparr> \<and>
   timers (step example_host (Message 1001 (js ''https://a.test'') pang) awaiting_reply) 0 = None \<and>
   faults (step example_host (Message 1001 (js ''https://a.test'') pang) awaiting_reply)
     = [ReferenceError]"
proof -
  note ev = awaiting_reply_def run_eval pang_def
  let ?t = "step example_host (Timeout 0) awaiting_reply"
  let ?r = "step example_host (Message 1001 (js ''https://a.test'') pang) awaiting_reply"
  have a: "pendingResponses awaiting_reply (js ''msg_1000_1_k3x9'')
     = Some \<lparr>p_promise = 0, p_timeoutId = 0\<rparr>"
    by (simp add: ev)
  have t1: "continuations ?t = []" by (simp add: ev)
  have t2: "pr_state (promises ?t ! 0) = None" by (simp add: ev)
  have t3: "pendingResponses ?t (js ''msg_1000_1_k3x9'') = None" by (simp add: ev)
  have t4: "faults ?t = [ReferenceError]" by (simp add: ev)
  have "?t = run example_host [PostMessage 1000 ping target (JBool True), Timeout 0]
               (constructor example_options)"
    by (simp add: awaiting_reply_def)
  then have i: "tinv example_host ?t"
    by (simp only: inv_reachable)
  have g: "given_up ?t 0"
    by (simp add: given_up_def ev)
  have t5: "pr_state (promises (run example_host es ?t) ! 0) = None" for es
    using given_up_run [OF i g, of es] by (simp add: given_up_def)
  have r1: "continuations ?r = []" by (simp add: ev)
  have r2: "pr_state (promises ?r ! 0) = None" by (simp add: ev)
  have r3: "pendingResponses ?r (js ''msg_1000_1_k3x9'') = Some \<lparr>p_promise = 0, p_timeoutId = 0\<rparr>"
    by (simp add: ev)
  have r4: "timers ?r 0 = None" by (simp add: ev)
  have r5: "faults ?r = [ReferenceError]" by (simp add: ev)
  show ?thesis
    using a t1 t2 t3 t4 t5 r1 r2 r3 r4 r5 by blast
qed

subsection \<open>Failing handlers\<close>

lemma respond_error_sends:
  assumes "error \<noteq> JUndefined" and "error \<noteq> JNull"
    and "truthy (get_field m (js ''id''))" and "truthy (get_field m (js ''source''))"
    and "debug s \<longrightarrow> (\<exists>u. to_string h (get_field m (js ''id'')) = Inr u)"
    and "transport_check h (get_field m (js ''source'')) = None"
  shows "sent (respond_error h now m error s)
           = sent s @ [(error_reply h now (next_id h now s) m error, get_field m (js ''source''))]"
    and "faults (respond_error h now m error s) = faults s"
    and "jobs (respond_error h now m error s) = jobs s"
  using assms
  by (auto simp: respond_error_def respondToMessage_def generateMessageId_def Let_def
      template_debug_def console_debug_def window_parent_postMessage_def error_reply_def
      next_id_def js_or_def js_def)

lemma run_job_rejected:
  assumes j: "jobs s = js0 @ [\<lparr>j_message = m, j_result = Rejects error\<rparr>]"
    and e: "error \<noteq> JUndefined" "error \<noteq> JNull"
    and v: "truthy (get_field m (js ''id''))" "truthy (get_field m (js ''source''))"
    and d: "debug s \<longrightarrow> (\<exists>u. to_string h (get_field m (js ''id'')) = Inr u)"
    and t: "transport_check h (get_field m (js ''source'')) = None"
  shows "sent (run_job h now (length js0) s)
           = sent s @ [(error_reply h now (next_id h now s) m error, get_field m (js ''source''))]"
    and "faults (run_job h now (length js0) s) = faults s"
proof -
  let ?s1 = "s\<lparr>jobs := take (length js0) (jobs s) @ drop (Suc (length js0)) (jobs s)\<rparr>"
  have r: "run_job h now (length js0) s = respond_error h now m error ?s1"
    by (simp add: run_job_def Let_def j)
  have d1: "debug ?s1 \<longrightarrow> (\<exists>u. to_string h (get_field m (js ''id'')) = Inr u)"
    using d by simp
  have "next_id h now ?s1 = next_id h now s" "sent ?s1 = sent s" "faults ?s1 = faults s"
    by (simp_all add: next_id_def)
  then show "sent (run_job h now (length js0) s)
           = sent s @ [(error_reply h now (next_id h now s) m error, get_field m (js ''source''))]"
    and "faults (run_job h now (length js0) s) = faults s"
    using respond_error_sends(1,2) [OF e v d1 t, of now] by (simp_all only: r)
qed

lemma validated_fields:
  assumes "validateMessage h now m = Inr True"
  shows "truthy (get_field m (js ''id''))" and "truthy (get_field m (js ''source''))"
  using assms by (auto simp: validateMessage_def split: if_splits)

lemma listener_dispatches:
  assumes "isOriginAllowed h (allowedOrigins s) origin = Inr True"
    and "validateMessage h now m = Inr True"
    and "debug s \<longrightarrow> (\<exists>u. to_string h (get_field m (js ''id'')) = Inr u)"
    and "\<not> (truthy (get_field m (js ''isResponse'')) \<and> truthy (get_field m (js ''responseToId'')))"
  shows "listener h now origin m s
           = dispatch h now m (console_debug (Log_received (get_field m (js ''id'')) origin m) s)"
  using assms by (auto simp: listener_def template_debug_def)

lemma find_handler_console_debug:
  "find_handler h (console_debug e s) t = find_handler h s t"
  by (simp add: find_handler_def console_debug_def split: sum.splits option.splits)

text \<open>
  What the listener does when a handler fails. A message from an allowed origin that
  is valid and not a response reaches a handler \<open>f\<close> for its type, and the handler
  fails with a value that is neither null nor undefined; the id of the message can be
  written into a log line and the host accepts the source of the message as a target. If
  the handler throws and the message requires a response,
  the listener hands to the transport, addressed to \<^verbatim>\<open>message.source\<close>, a response
  with status error whose payload is the failure's \<^verbatim>\<open>message\<close> and its \<^verbatim>\<open>details\<close> (or
  \<^verbatim>\<open>{}\<close>), and nothing escapes the listener. If it throws and no response is required,
  the failure is logged with \<^verbatim>\<open>console.error\<close>, nothing is sent or queued and nothing
  escapes. If it returns a promise that rejects and a response is required, the result
  is queued and, when the rejection callback runs, the same error response is sent. If
  it returns a promise that rejects and no response is required, the listener does
  nothing with the result: nothing is logged, sent or queued.
\<close>

lemma handler_failure_reply:
  assumes allowed: "isOriginAllowed h (allowedOrigins s) origin = Inr True"
    and valid: "validateMessage h now m = Inr True"
    and template: "debug s \<longrightarrow> (\<exists>u. to_string h (get_field m (js ''id'')) = Inr u)"
    and transport: "transport_check h (get_field m (js ''source'')) = None"
    and request: "\<not> (truthy (get_field m (js ''isResponse''))
                      \<and> truthy (get_field m (js ''responseToId'')))"
    and handler: "find_handler h s (get_field (get_field m (js ''payload'')) (js ''type''))
                    = Inr (Some f)"
    and failure: "error \<noteq> JUndefined" "error \<noteq> JNull"
  shows
    "(f (get_field m (js ''payload'')) (handler_meta m) = Throws error
        \<and> truthy (get_field m (js ''requiresResponse'')) \<longrightarrow>
      sent (listener h now origin m s)
        = sent s @ [(error_reply h now (next_id h now s) m error, get_field m (js ''source''))] \<and>
      faults (listener h now origin m s) = faults s) \<and>
     (f (get_field m (js ''payload'')) (handler_meta m) = Throws error
        \<and> \<not> truthy (get_field m (js ''requiresResponse'')) \<longrightarrow>
      console (listener h now origin m s)
        = console (console_debug (Log_received (get_field m (js ''id'')) origin m) s)
          @ [Error_processing error] \<and>
      sent (listener h now origin m s) = sent s \<and>
      jobs (listener h now origin m s) = jobs s \<and>
      faults (listener h now origin m s) = faults s) \<and>
     (f (get_field m (js ''payload'')) (handler_meta m) = Defers (Rejects error)
        \<and> truthy (get_field m (js ''requiresResponse'')) \<longrightarrow>
      jobs (listener h now origin m s) = jobs s @ [\<lparr>j_message = m, j_result = Rejects error\<rparr>] \<and>
      sent (listener h now origin m s) = sent s \<and>
      sent (run_job h now' (length (jobs s)) (listener h now origin m s))
        = sent s @ [(error_reply h now' (next_id h now' s) m error, get_field m (js ''source''))] \<and>
      faults (run_job h now' (length (jobs s)) (listener h now origin m s)) = faults s) \<and>
     (f (get_field m (js ''payload'')) (handler_meta m) = Defers (Rejects error)
        \<and> \<not> truthy (get_field m (js ''requiresResponse'')) \<longrightarrow>
      console (listener h now origin m s)
        = console (console_debug (Log_received (get_field m (js ''id'')) origin m) s) \<and>
      sent (listener h now origin m s) = sent s \<and>
      jobs (listener h now origin m s) = jobs s \<and>
      faults (listener h now origin m s) = faults s)"
proof -
  let ?s1 = "console_debug (Log_received (get_field m (js ''id'')) origin m) s"
  let ?s2 = "?s1\<lparr>dispatched := dispatched ?s1 @ [(get_field m (js ''payload''), handler_meta m)]\<rparr>"
  note l = listener_dispatches [OF allowed valid template request]
  note v = validated_fields [OF valid]
  have fh: "find_handler h ?s1 (get_field (get_field m (js ''payload'')) (js ''type'')) = Inr (Some f)"
    using handler by (simp add: find_handler_console_debug)
  have nid: "\<And>t. next_id h t ?s2 = next_id h t s"
    by (simp add: next_id_def console_debug_def)
  have base: "sent ?s2 = sent s" "jobs ?s2 = jobs s" "faults ?s2 = faults s"
    "console ?s2 = console ?s1"
    by (simp_all add: console_debug_def)
  have a: "sent (listener h now origin m s)
        = sent s @ [(error_reply h now (next_id h now s) m error, get_field m (js ''source''))] \<and>
      faults (listener h now origin m s) = faults s"
    if "f (get_field m (js ''payload'')) (handler_meta m) = Throws error"
      and "truthy (get_field m (js ''requiresResponse''))"
  proof -
    let ?s3 = "?s2\<lparr>console := console ?s2 @ [Error_processing error]\<rparr>"
    have "listener h now origin m s = respond_error h now m error ?s3"
      using that fh by (simp add: l dispatch_def on_throw_def Let_def)
    moreover have "next_id h now ?s3 = next_id h now s" "sent ?s3 = sent s" "faults ?s3 = faults s"
      by (simp_all add: next_id_def console_debug_def)
    moreover have "debug ?s3 \<longrightarrow> (\<exists>u. to_string h (get_field m (js ''id'')) = Inr u)"
      using template by (simp add: console_debug_def)
    ultimately show ?thesis
      using respond_error_sends(1,2) [OF failure v _ transport, of ?s3 now] by simp
  qed
  have b: "console (listener h now origin m s) = console ?s1 @ [Error_processing error] \<and>
      sent (listener h now origin m s) = sent s \<and>
      jobs (listener h now origin m s) = jobs s \<and>
      faults (listener h now origin m s) = faults s"
    if "f (get_field m (js ''payload'')) (handler_meta m) = Throws error"
      and "\<not> truthy (get_field m (js ''requiresResponse''))"
    using that fh by (simp add: l dispatch_def on_throw_def Let_def console_debug_def)
  have c: "jobs (listener h now origin m s) = jobs s @ [\<lparr>j_message = m, j_result = Rejects error\<rparr>] \<and>
      sent (listener h now origin m s) = sent s \<and>
      sent (run_job h now' (length (jobs s)) (listener h now origin m s))
        = sent s @ [(error_reply h now' (next_id h now' s) m error, get_field m (js ''source''))] \<and>
      faults (run_job h now' (length (jobs s)) (listener h now origin m s)) = faults s"
    if "f (get_field m (js ''payload'')) (handler_meta m) = Defers (Rejects error)"
      and "truthy (get_field m (js ''requiresResponse''))"
  proof -
    let ?j = "\<lparr>j_message = m, j_result = Rejects error\<rparr>"
    have ls: "listener h now origin m s = ?s2\<lparr>jobs := jobs ?s2 @ [?j]\<rparr>"
      using that fh by (simp add: l dispatch_def Let_def)
    have j3: "jobs (listener h now origin m s) = jobs s @ [?j]"
      and s3: "sent (listener h now origin m s) = sent s"
      and f3: "faults (listener h now origin m s) = faults s"
      and n3: "next_id h now' (listener h now origin m s) = next_id h now' s"
      and d3: "debug (listener h now origin m s) = debug s"
      by (simp_all add: ls next_id_def console_debug_def)
    have d: "debug (listener h now origin m s) \<longrightarrow> (\<exists>u. to_string h (get_field m (js ''id'')) = Inr u)"
      using template by (simp add: d3)
    show ?thesis
      using run_job_rejected [OF j3 failure v d transport, of now'] j3 s3 f3 n3
      by simp
  qed
  have d: "console (listener h now origin m s) = console ?s1 \<and>
      sent (listener h now origin m s) = sent s \<and>
      jobs (listener h now origin m s) = jobs s \<and>
      faults (listener h now origin m s) = faults s"
    if "f (get_field m (js ''payload'')) (handler_meta m) = Defers (Rejects error)"
      and "\<not> truthy (get_field m (js ''requiresResponse''))"
    using that fh by (simp add: l dispatch_def Let_def console_debug_def)
  show ?thesis
    using a b c d by blast
qed

text \<open>
  C8. The result of a handler is looked at only when the message requires a response.
  When a handler's promise rejects on a message that requires none, the handler has
  run and the console is empty, with nothing queued that could log or catch the
  rejection later: the failure is not logged, and the rejected promise is left without
  a rejection callback. And a handler that throws \<^verbatim>\<open>null\<close> on a message that requires
  a response gets no error response: reading \<^verbatim>\<open>error.message\<close> throws in the \<^verbatim>\<open>catch\<close>
  block and leaves the listener.
\<close>

theorem handler_rejection_not_logged:
  "dispatched (listener example_host 1000 (js ''https://a.test'') (ping_request (JBool False))
                 (with_handler (\<lambda>payload meta. Defers (Rejects boom))))
     = [(ping, handler_meta (ping_request (JBool False)))] \<and>
   console (listener example_host 1000 (js ''https://a.test'') (ping_request (JBool False))
              (with_handler (\<lambda>payload meta. Defers (Rejects boom)))) = [] \<and>
   jobs (listener example_host 1000 (js ''https://a.test'') (ping_request (JBool False))
           (with_handler (\<lambda>payload meta. Defers (Rejects boom)))) = [] \<and>
   sent (listener example_host 1000 (js ''https://a.test'') (ping_request (JBool True))
           (with_handler (\<lambda>payload meta. Throws JNull))) = [] \<and>
   faults (listener example_host 1000 (js ''https://a.test'') (ping_request (JBool True))
             (with_handler (\<lambda>payload meta. Throws JNull))) = [TypeError]"
  by (simp add: dispatch_eval)

lemma handler_failure_reply_example:
  "sent (listener example_host 1000 (js ''https://a.test'') (ping_request (JBool True))
           (with_handler (\<lambda>payload meta. Throws boom)))
     = [(JObj [(js ''id'', JStr (js ''msg_1000_1_k3x9'')),
               (js ''responseToId'', JStr (js ''q1'')),
               (js ''timestamp'', JNum (Fin 1000)),
               (js ''source'', JStr (js ''https://app.test'')),
               (js ''payload'', boom),
               (js ''isResponse'', JBool True),
               (js ''status'', JStr (js ''error''))],
         JStr (js ''https://a.test''))] \<and>
   sent (run_job example_host 1002 0
           (listener example_host 1000 (js ''https://a.test'') (ping_request (JBool True))
              (with_handler (\<lambda>payload meta. Defers (Rejects boom)))))
     = [(JObj [(js ''id'', JStr (js ''msg_1002_1_k3x9'')),
               (js ''responseToId'', JStr (js ''q1'')),
               (js ''timestamp'', JNum (Fin 1002)),
               (js ''source'', JStr (js ''https://app.test'')),
               (js ''payload'', boom),
               (js ''isResponse'', JBool True),
               (js ''status'', JStr (js ''error''))],
         JStr (js ''https://a.test''))]"
proof -
  let ?m = "ping_request (JBool True)"
  have allowed: "\<And>f. isOriginAllowed example_host (allowedOrigins (with_handler f)) (js ''https://a.test'') = Inr True"
    by (simp add: dispatch_eval)
  have valid: "validateMessage example_host 1000 ?m = Inr True"
    by (simp add: dispatch_eval)
  have template: "\<And>f. debug (with_handler f) \<longrightarrow>
      (\<exists>u. to_string example_host (get_field ?m (js ''id'')) = Inr u)"
    by (simp add: dispatch_eval)
  have transport: "transport_check example_host (get_field ?m (js ''source'')) = None"
    by (simp add: dispatch_eval)
  have request: "\<not> (truthy (get_field ?m (js ''isResponse''))
                     \<and> truthy (get_field ?m (js ''responseToId'')))"
    by (simp add: dispatch_eval)
  have handler: "\<And>f. find_handler example_host (with_handler f)
                    (get_field (get_field ?m (js ''payload'')) (js ''type'')) = Inr (Some f)"
    by (simp add: dispatch_eval)
  have failure: "boom \<noteq> JUndefined" "boom \<noteq> JNull"
    by (simp_all add: boom_def)
  have rr: "truthy (get_field ?m (js ''requiresResponse''))"
    by (simp add: dispatch_eval)
  have src: "get_field ?m (js ''source'') = JStr (js ''https://a.test'')"
    by (simp add: dispatch_eval)
  have reply: "\<And>f t. error_reply example_host t (next_id example_host t (with_handler f)) ?m boom
      = JObj [(js ''id'', JStr (message_id example_host t 1)),
               (js ''responseToId'', JStr (js ''q1'')),
               (js ''timestamp'', JNum (Fin t)),
               (js ''source'', JStr (js ''https://app.test'')),
               (js ''payload'', boom),
               (js ''isResponse'', JBool True),
               (js ''status'', JStr (js ''error''))]"
    by (simp add: error_reply_def next_id_def with_handler_def registerHandler_def
        constructor_def console_debug_def example_options_def example_host_def ping_request_def
        property_key_def boom_def js_or_def js_def Let_def)
  have ids: "message_id example_host 1000 (Suc 0) = js ''msg_1000_1_k3x9''"
    "message_id example_host 1002 (Suc 0) = js ''msg_1002_1_k3x9''"
    by (simp_all add: send_eval)
  have s0: "\<And>f. sent (with_handler f) = []" "\<And>f. jobs (with_handler f) = []"
    by (simp_all add: dispatch_eval)
  show ?thesis
    using handler_failure_reply [OF allowed valid template transport request handler failure,
        of "\<lambda>payload meta. Throws boom" 1002]
      handler_failure_reply [OF allowed valid template transport request handler failure,
        of "\<lambda>payload meta. Defers (Rejects boom)" 1002]
      rr src
    by (simp add: reply ids s0)
qed

end
